theory Spec2Isabelle
  imports Complex_Main "HOL-Library.Sublist"
begin

section \<open>Strings and the two regular expressions of the graph view\<close>

text \<open>
  JavaScript strings are modelled as \<^typ>\<open>string\<close>, one \<^typ>\<open>char\<close> per code unit, so the
  model covers texts whose code units are below 256.  \<open>String.prototype.startsWith\<close> and
  \<open>String.prototype.split('\n')\<close> are written out; \<open>split\<close> always returns at least one
  element (the empty text splits to one empty line).
\<close>

fun startsWith :: "string \<Rightarrow> string \<Rightarrow> bool" where
  "startsWith s [] = True"
| "startsWith [] (p # ps) = False"
| "startsWith (c # cs) (p # ps) = (c = p \<and> startsWith cs ps)"

fun splitFrom :: "string \<Rightarrow> string \<Rightarrow> string list" where
  "splitFrom acc [] = [acc]"
| "splitFrom acc (c # cs) =
     (if c = CHR 0x0A then acc # splitFrom [] cs else splitFrom (acc @ [c]) cs)"

definition splitLines :: "string \<Rightarrow> string list" where
  "splitLines s = splitFrom [] s"

text \<open>
  A backtracking matcher in continuation-passing style, enough for the two patterns of the
  source.  A matcher takes the continuation that matches the rest of the pattern and the
  remaining input; \<open>None\<close> is a failed match.  \<open>star\<close> and \<open>opt\<close> are greedy: they try
  the longer alternative first and fall back when the continuation fails, as the
  JavaScript engine does.  \<open>search\<close> is the unanchored search of \<open>String.prototype.match\<close>:
  the leftmost start position that matches wins.
\<close>

fun lit :: "string \<Rightarrow> (string \<Rightarrow> 'a option) \<Rightarrow> string \<Rightarrow> 'a option" where
  "lit [] k s = k s"
| "lit (p # ps) k [] = None"
| "lit (p # ps) k (c # cs) = (if c = p then lit ps k cs else None)"

fun star :: "(char \<Rightarrow> bool) \<Rightarrow> (string \<Rightarrow> 'a option) \<Rightarrow> string \<Rightarrow> (string \<times> 'a) option" where
  "star P k [] = map_option (Pair []) (k [])"
| "star P k (c # cs) =
     (if P c then
        (case star P k cs of
           Some (g, r) \<Rightarrow> Some (c # g, r)
         | None \<Rightarrow> map_option (Pair []) (k (c # cs)))
      else map_option (Pair []) (k (c # cs)))"

fun plus :: "(char \<Rightarrow> bool) \<Rightarrow> (string \<Rightarrow> 'a option) \<Rightarrow> string \<Rightarrow> (string \<times> 'a) option" where
  "plus P k [] = None"
| "plus P k (c # cs) =
     (if P c then (case star P k cs of Some (g, r) \<Rightarrow> Some (c # g, r) | None \<Rightarrow> None)
      else None)"

definition opt ::
  "((string \<Rightarrow> 'a option) \<Rightarrow> string \<Rightarrow> 'a option) \<Rightarrow> (string \<Rightarrow> 'a option) \<Rightarrow> string \<Rightarrow> 'a option" where
  "opt m k s = (case m k s of Some r \<Rightarrow> Some r | None \<Rightarrow> k s)"

definition nogroup ::
  "((string \<Rightarrow> 'a option) \<Rightarrow> string \<Rightarrow> (string \<times> 'a) option) \<Rightarrow> (string \<Rightarrow> 'a option) \<Rightarrow> string \<Rightarrow> 'a option" where
  "nogroup m k s = map_option snd (m k s)"

definition matched :: "string \<Rightarrow> unit option" where
  "matched s = Some ()"

fun search :: "(string \<Rightarrow> 'a option) \<Rightarrow> string \<Rightarrow> 'a option" where
  "search m [] = m []"
| "search m (c # cs) = (case m (c # cs) of Some r \<Rightarrow> Some r | None \<Rightarrow> search m cs)"

text \<open>
  The pattern \<open>.\<close> matches every code unit but a line terminator; below 256 these are
  line feed and carriage return.  \<open>\d\<close> matches the ten ASCII digits.
\<close>

definition lineTerminator :: "char \<Rightarrow> bool" where
  "lineTerminator c = (c = CHR 0x0A \<or> c = CHR 0x0D)"

definition dot :: "char \<Rightarrow> bool" where
  "dot c = (\<not> lineTerminator c)"

definition digit :: "char \<Rightarrow> bool" where
  "digit c = (c \<in> set ''0123456789'')"

text \<open>\<open>/diff --git a\/(.*) b\/(.*)/\<close>: the result holds the groups 1 and 2.\<close>

definition headerPattern :: "string \<Rightarrow> (string \<times> string \<times> unit) option" where
  "headerPattern = lit ''diff --git a/'' (star dot (lit '' b/'' (star dot matched)))"

definition matchHeader :: "string \<Rightarrow> (string \<times> string) option" where
  "matchHeader line = map_option (\<lambda>(g1, g2, u). (g1, g2)) (search headerPattern line)"

text \<open>\<open>/@@ -(\d+)(?:,\d+)? \+(\d+)(?:,\d+)? @@/\<close>: the result holds the groups 1 and 2.\<close>

definition hunkPattern :: "string \<Rightarrow> (string \<times> string \<times> unit) option" where
  "hunkPattern =
     lit ''@@ -'' (plus digit (opt (lit '','' \<circ> nogroup (plus digit))
       (lit '' +'' (plus digit (opt (lit '','' \<circ> nogroup (plus digit))
         (lit '' @@'' matched))))))"

definition matchHunk :: "string \<Rightarrow> (string \<times> string) option" where
  "matchHunk line = map_option (\<lambda>(g1, g2, u). (g1, g2)) (search hunkPattern line)"

text \<open>
  \<open>parseInt\<close> on a group of the hunk pattern, which is a non-empty run of decimal digits;
  \<open>String(n)\<close> on a non-negative integer.  Line counters are natural numbers: the rounding
  of values beyond \<open>2^53\<close> is not modelled.
\<close>

definition digitValue :: "char \<Rightarrow> nat" where
  "digitValue c = of_char c - 48"

definition parseInt :: "string \<Rightarrow> nat" where
  "parseInt ds = foldl (\<lambda>n c. 10 * n + digitValue c) 0 ds"

fun String :: "nat \<Rightarrow> string" where
  "String n =
     (if n < 10 then [''0123456789'' ! n]
      else String (n div 10) @ [''0123456789'' ! (n mod 10)])"

declare String.simps [simp del]

section \<open>The diff view: \<open>parseDiffByFile\<close> and \<open>getDiffStats\<close>\<close>

record DiffFile =
  name :: string
  stats :: string
  lines :: "string list"

text \<open>
  The loop of \<open>parseDiffByFile\<close> over the lines, with its two variables \<open>files\<close> and
  \<open>currentFile\<close> (\<open>None\<close> is \<open>null\<close>) passed along.
\<close>

fun parseLoop ::
  "DiffFile list \<Rightarrow> DiffFile option \<Rightarrow> string list \<Rightarrow> DiffFile list \<times> DiffFile option" where
  "parseLoop files currentFile [] = (files, currentFile)"
| "parseLoop files currentFile (line # rest) =
     (if startsWith line ''diff --git'' then
        let files' = (case currentFile of Some f \<Rightarrow> files @ [f] | None \<Rightarrow> files);
            fileName = (case matchHeader line of Some (g1, g2) \<Rightarrow> g2 | None \<Rightarrow> line)
        in parseLoop files' (Some \<lparr>name = fileName, stats = [], lines = []\<rparr>) rest
      else
        (case currentFile of
           Some f \<Rightarrow> parseLoop files (Some (f\<lparr>lines := lines f @ [line]\<rparr>)) rest
         | None \<Rightarrow> parseLoop files None rest))"

definition parseDiffByFile :: "string \<Rightarrow> DiffFile list" where
  "parseDiffByFile diff =
     (case parseLoop [] None (splitLines diff) of
        (files, Some f) \<Rightarrow> files @ [f]
      | (files, None) \<Rightarrow> files)"

record DiffStats =
  added :: nat
  removed :: nat

fun statsLoop :: "nat \<Rightarrow> nat \<Rightarrow> string list \<Rightarrow> DiffStats" where
  "statsLoop a r [] = \<lparr>added = a, removed = r\<rparr>"
| "statsLoop a r (line # rest) =
     (let a' = (if startsWith line ''+'' \<and> \<not> startsWith line ''+++'' then a + 1 else a);
          r' = (if startsWith line ''-'' \<and> \<not> startsWith line ''---'' then r + 1 else r)
      in statsLoop a' r' rest)"

definition getDiffStats :: "string list \<Rightarrow> DiffStats" where
  "getDiffStats ls = statsLoop 0 0 ls"

text \<open>
  The claims speak of boundary lines and of the lines between them; these two definitions
  follow those words and are compared with the loop above.
\<close>

definition isBoundary :: "string \<Rightarrow> bool" where
  "isBoundary l = prefix ''diff --git'' l"

fun splitAtBoundaries :: "string list \<Rightarrow> (string \<times> string list) list" where
  "splitAtBoundaries [] = []"
| "splitAtBoundaries (l # ls) =
     (if isBoundary l then (l, takeWhile (\<lambda>x. \<not> isBoundary x) ls) # splitAtBoundaries ls
      else splitAtBoundaries ls)"

definition linesOwnedBy :: "nat \<Rightarrow> string list \<Rightarrow> string list" where
  "linesOwnedBy j ls =
     map (\<lambda>i. ls ! i)
       (filter (\<lambda>i. \<not> isBoundary (ls ! i) \<and> length (filter isBoundary (take i ls)) = Suc j)
          [0..<length ls])"

section \<open>The store of local repositories\<close>

text \<open>
  \<open>useLocalReposStore\<close>: the state and its three actions.  The fields \<open>id\<close> and \<open>name\<close> of
  \<open>LocalRepo\<close> are written \<open>id'\<close> and \<open>name'\<close>.  \<open>crypto.randomUUID()\<close> and
  \<open>new Date().toISOString()\<close> are inputs of \<open>addRepo\<close>: the model takes their results as
  the arguments \<open>uuid\<close> and \<open>now\<close>.
\<close>

record LocalRepo =
  id' :: string
  path :: string
  name' :: string
  addedAt :: string

record LocalReposState =
  repos :: "LocalRepo list"
  selectedRepoId :: "string option"

definition initialState :: LocalReposState where
  "initialState = \<lparr>repos = [], selectedRepoId = None\<rparr>"

definition addRepo :: "string \<Rightarrow> string \<Rightarrow> string \<Rightarrow> string \<Rightarrow> LocalReposState \<Rightarrow> LocalReposState" where
  "addRepo uuid now p n state =
     (case find (\<lambda>r. path r = p) (repos state) of
        Some existing \<Rightarrow> state\<lparr>selectedRepoId := Some (id' existing)\<rparr>
      | None \<Rightarrow>
          state\<lparr>repos := repos state @ [\<lparr>id' = uuid, path = p, name' = n, addedAt = now\<rparr>],
                selectedRepoId := Some uuid\<rparr>)"

definition removeRepo :: "string \<Rightarrow> LocalReposState \<Rightarrow> LocalReposState" where
  "removeRepo i state =
     state\<lparr>repos := filter (\<lambda>r. id' r \<noteq> i) (repos state),
           selectedRepoId := (if selectedRepoId state = Some i then None else selectedRepoId state)\<rparr>"

definition selectRepo :: "string option \<Rightarrow> LocalReposState \<Rightarrow> LocalReposState" where
  "selectRepo i state = state\<lparr>selectedRepoId := i\<rparr>"

text \<open>A call of the store, and the state after a sequence of calls from the initial state.\<close>

datatype storeCall =
    AddRepo string string string string
  | RemoveRepo string
  | SelectRepo "string option"

fun call :: "LocalReposState \<Rightarrow> storeCall \<Rightarrow> LocalReposState" where
  "call state (AddRepo uuid now p n) = addRepo uuid now p n state"
| "call state (RemoveRepo i) = removeRepo i state"
| "call state (SelectRepo i) = selectRepo i state"

definition stateAfter :: "storeCall list \<Rightarrow> LocalReposState" where
  "stateAfter calls = foldl call initialState calls"

section \<open>The connectors of the commit graph: \<open>renderConnections\<close>\<close>

text \<open>
  \<open>GraphCommit\<close> as the backend sends it.  \<open>column\<close> and \<open>color\<close> are integers.  The
  coordinates are JavaScript numbers; they are modelled as real numbers, so the arithmetic is
  exact and the rounding of \<open>(y2 - y1) * 0.3\<close> in binary floating point is not modelled.
\<close>

record GraphCommit =
  hash :: string
  hash_short :: string
  message :: string
  author :: string
  email :: string
  date :: string
  parents :: "string list"
  branches :: "string list"
  tags :: "string list"
  column :: int
  color :: int

definition COLORS :: "string list" where
  "COLORS = [''#3b82f6'', ''#22c55e'', ''#f59e0b'', ''#ef4444'',
             ''#8b5cf6'', ''#ec4899'', ''#06b6d4'', ''#f97316'']"

definition ROW_HEIGHT :: real where "ROW_HEIGHT = 24"
definition COLUMN_WIDTH :: real where "COLUMN_WIDTH = 16"
definition GRAPH_PADDING :: real where "GRAPH_PADDING = 6"

text \<open>
  \<open>COLORS[commit.color % COLORS.length]\<close>: the remainder takes the sign of the dividend, and
  a negative index reads \<open>undefined\<close>, here \<open>None\<close>.
\<close>

definition strokeColor :: "int \<Rightarrow> string option" where
  "strokeColor c =
     (let r = sgn c * (\<bar>c\<bar> mod int (length COLORS))
      in if 0 \<le> r then Some (COLORS ! nat r) else None)"

text \<open>
  The two elements pushed to \<open>paths\<close>: a \<open>line\<close> with its end points, and a \<open>path\<close> whose
  \<open>d\<close> attribute \<open>M p0 C c1, c2, p3\<close> is a cubic curve with the control points \<open>c1\<close> and
  \<open>c2\<close>.  Both carry the key and the stroke.
\<close>

datatype connector =
    Line string real real real real "string option"
  | Path string "real \<times> real" "real \<times> real" "real \<times> real" "real \<times> real" "string option"

datatype error = TypeError

text \<open>\<open>commitIndexMap\<close>: \<open>forEach\<close> with \<open>map.set\<close>, so a later row replaces an earlier one.\<close>

fun indexLoop :: "(string \<rightharpoonup> nat) \<Rightarrow> nat \<Rightarrow> GraphCommit list \<Rightarrow> (string \<rightharpoonup> nat)" where
  "indexLoop m idx [] = m"
| "indexLoop m idx (c # cs) = indexLoop (m(hash c \<mapsto> idx)) (Suc idx) cs"

definition commitIndexMap :: "GraphCommit list \<Rightarrow> (string \<rightharpoonup> nat)" where
  "commitIndexMap commits = indexLoop Map.empty 0 commits"

text \<open>The body of \<open>if (parentIndex !== undefined)\<close>, for a parent commit that was read.\<close>

definition connection :: "GraphCommit \<Rightarrow> nat \<Rightarrow> string \<Rightarrow> GraphCommit \<Rightarrow> nat \<Rightarrow> connector" where
  "connection commit index parentHash parentCommit parentIndex =
     (let x1 = GRAPH_PADDING + of_int (column commit) * COLUMN_WIDTH;
          y1 = GRAPH_PADDING + of_nat index * ROW_HEIGHT + ROW_HEIGHT / 2;
          x2 = GRAPH_PADDING + of_int (column parentCommit) * COLUMN_WIDTH;
          y2 = GRAPH_PADDING + of_nat parentIndex * ROW_HEIGHT + ROW_HEIGHT / 2;
          stroke = strokeColor (color commit);
          key = hash commit @ ''-'' @ parentHash
      in if column commit = column parentCommit then Line key x1 y1 x2 y2 stroke
         else
           let midY = y1 + (y2 - y1) * 0.3
           in Path key (x1, y1) (x1, midY) (x2, midY) (x2, y2) stroke)"

text \<open>
  The inner \<open>forEach\<close> over \<open>commit.parents\<close> and the outer one over \<open>commits\<close>, with
  \<open>paths\<close> passed along.  \<open>commits[parentIndex]\<close> out of range is \<open>undefined\<close>, and reading
  its \<open>column\<close> throws a \<open>TypeError\<close>.
\<close>

fun parentsLoop ::
  "GraphCommit list \<Rightarrow> (string \<rightharpoonup> nat) \<Rightarrow> GraphCommit \<Rightarrow> nat \<Rightarrow> connector list \<Rightarrow> string list
     \<Rightarrow> error + connector list" where
  "parentsLoop commits m commit index paths [] = Inr paths"
| "parentsLoop commits m commit index paths (parentHash # rest) =
     (case m parentHash of
        None \<Rightarrow> parentsLoop commits m commit index paths rest
      | Some parentIndex \<Rightarrow>
          if parentIndex < length commits then
            parentsLoop commits m commit index
              (paths @ [connection commit index parentHash (commits ! parentIndex) parentIndex]) rest
          else Inl TypeError)"

fun commitsLoop ::
  "GraphCommit list \<Rightarrow> (string \<rightharpoonup> nat) \<Rightarrow> nat \<Rightarrow> connector list \<Rightarrow> GraphCommit list
     \<Rightarrow> error + connector list" where
  "commitsLoop commits m index paths [] = Inr paths"
| "commitsLoop commits m index paths (commit # rest) =
     (case parentsLoop commits m commit index paths (parents commit) of
        Inl e \<Rightarrow> Inl e
      | Inr paths' \<Rightarrow> commitsLoop commits m (Suc index) paths' rest)"

definition renderConnections :: "GraphCommit list \<Rightarrow> error + connector list" where
  "renderConnections commits = commitsLoop commits (commitIndexMap commits) 0 [] commits"

text \<open>
  The claim speaks of the connectors of one (commit, parent) pair: the pair is a row and one
  entry of that row's \<open>parents\<close>.  These definitions follow those words.
\<close>

definition connectorsOfPair :: "GraphCommit list \<Rightarrow> nat \<Rightarrow> string \<Rightarrow> connector list" where
  "connectorsOfPair commits index parentHash =
     (case commitIndexMap commits parentHash of
        None \<Rightarrow> []
      | Some parentIndex \<Rightarrow>
          [connection (commits ! index) index parentHash (commits ! parentIndex) parentIndex])"

definition commitParentPairs :: "GraphCommit list \<Rightarrow> (nat \<times> string) list" where
  "commitParentPairs commits =
     concat (map (\<lambda>index. map (Pair index) (parents (commits ! index))) [0..<length commits])"

text \<open>That every row of the index map is a row of the list, so that no read is out of range.\<close>

definition inRange :: "GraphCommit list \<Rightarrow> (string \<rightharpoonup> nat) \<Rightarrow> bool" where
  "inRange commits m = (\<forall>h j. m h = Some j \<longrightarrow> j < length commits)"

text \<open>A commit for the examples: only the fields the connectors read differ.\<close>

definition exampleCommit :: "string \<Rightarrow> string list \<Rightarrow> int \<Rightarrow> GraphCommit" where
  "exampleCommit h ps col =
     \<lparr>hash = h, hash_short = take 7 h, message = [], author = [], email = [], date = [],
      parents = ps, branches = [], tags = [], column = col, color = col\<rparr>"

section \<open>The line numbers of an expanded file\<close>

text \<open>
  The callback of \<open>file.lines.slice(0, 100).map\<close> with its two closure variables \<open>oldLine\<close>
  and \<open>newLine\<close>: \<open>renderLine\<close> takes their values and the line, and returns the row and
  their new values.  A row is one of the three \<open>div\<close>s of the source: the hunk header row
  (which shows \<open>...\<close> for a number), the row of an \<open>index\<close>, \<open>---\<close> or \<open>+++\<close> line (which
  shows no number), and the content row with its class and the two numbers \<open>oldNum\<close> and
  \<open>newNum\<close>, each a decimal string or the empty string.
\<close>

datatype diffRow =
    HunkRow string
  | MetaRow string
  | ContentRow string string string string

definition renderLine :: "nat \<times> nat \<Rightarrow> string \<Rightarrow> diffRow \<times> (nat \<times> nat)" where
  "renderLine counters line =
     (case counters of (oldLine, newLine) \<Rightarrow>
        if startsWith line ''@@'' then
          (case matchHunk line of
             Some (g1, g2) \<Rightarrow> (HunkRow line, (parseInt g1, parseInt g2))
           | None \<Rightarrow> (HunkRow line, (oldLine, newLine)))
        else if startsWith line ''index'' \<or> startsWith line ''---'' \<or> startsWith line ''+++'' then
          (MetaRow line, (oldLine, newLine))
        else if startsWith line ''+'' then
          (ContentRow ''flex bg-green-500/10 text-green-600'' [] (String newLine) line,
           (oldLine, newLine + 1))
        else if startsWith line ''-'' then
          (ContentRow ''flex bg-red-500/10 text-red-600'' (String oldLine) [] line,
           (oldLine + 1, newLine))
        else
          (ContentRow ''flex whitespace-pre'' (String oldLine) (String newLine) line,
           (oldLine + 1, newLine + 1)))"

fun mapLines :: "nat \<times> nat \<Rightarrow> string list \<Rightarrow> diffRow list" where
  "mapLines counters [] = []"
| "mapLines counters (line # rest) =
     (case renderLine counters line of (r, counters') \<Rightarrow> r # mapLines counters' rest)"

definition renderFileLines :: "DiffFile \<Rightarrow> diffRow list" where
  "renderFileLines file = mapLines (0, 0) (take 100 (lines file))"

text \<open>
  The claim's content lines are the lines that the source numbers: those that begin with
  none of \<open>@@\<close>, \<open>index\<close>, \<open>---\<close> and \<open>+++\<close>.
\<close>

definition contentLine :: "string \<Rightarrow> bool" where
  "contentLine l =
     (\<not> prefix ''@@'' l \<and> \<not> prefix ''index'' l \<and> \<not> prefix ''---'' l \<and> \<not> prefix ''+++'' l)"

text \<open>
  The claim says how a line after a hunk header is numbered.  \<open>numberedRow\<close> is the row it
  gives a line that does not begin with \<open>@@\<close>, for the counters before the line: an added
  line shows the new-line counter, a removed line the old-line counter, another content line
  both, and a line that is no content line shows none.  \<open>oldAdvance\<close> and \<open>newAdvance\<close> are
  the numbers of lines of a list that advance the old-line and the new-line counter: the
  content lines that are not added, and those that are not removed.
\<close>

definition numberedRow :: "nat \<times> nat \<Rightarrow> string \<Rightarrow> diffRow" where
  "numberedRow counters l =
     (case counters of (oldLine, newLine) \<Rightarrow>
        if \<not> contentLine l then MetaRow l
        else if prefix ''+'' l then
          ContentRow ''flex bg-green-500/10 text-green-600'' [] (String newLine) l
        else if prefix ''-'' l then
          ContentRow ''flex bg-red-500/10 text-red-600'' (String oldLine) [] l
        else ContentRow ''flex whitespace-pre'' (String oldLine) (String newLine) l)"

definition oldAdvance :: "string list \<Rightarrow> nat" where
  "oldAdvance ls = length (filter (\<lambda>l. contentLine l \<and> \<not> prefix ''+'' l) ls)"

definition newAdvance :: "string list \<Rightarrow> nat" where
  "newAdvance ls = length (filter (\<lambda>l. contentLine l \<and> \<not> prefix ''-'' l) ls)"

text \<open>The values of the two closure variables after the callback has run on the lines.\<close>

fun countersAfter :: "nat \<times> nat \<Rightarrow> string list \<Rightarrow> nat \<times> nat" where
  "countersAfter counters [] = counters"
| "countersAfter counters (line # rest) = countersAfter (snd (renderLine counters line)) rest"

text \<open>
  A file for the examples: three header lines, a hunk header, five lines, a line that begins
  with \<open>@@\<close> and does not match the hunk pattern, and one more line.
\<close>

definition exampleFile :: DiffFile where
  "exampleFile =
     \<lparr>name = ''x'', stats = [],
      lines = [''index 1..2'', ''--- a/x'', ''+++ b/x'', ''@@ -12,3 +15,4 @@ int f()'', '' a'',
               ''-b'', ''+c'', ''--- x'', ''+d'', ''@@ bad @@'', '' e'']\<rparr>"

section \<open>The graph builder\<close>

text \<open>
  Modelled from the spec: the graph builder, which the backend command \<open>get_graph_log\<close>
  runs, is not among the sources; only its caller \<open>getGraphLog\<close> and the type \<open>GraphCommit\<close>
  of its result are.  The definitions of this section follow section 4.1 of the
  specification.  The fields \<open>hash\<close>, \<open>parents\<close> and \<open>column\<close> of the specification's
  \<open>Commit\<close> and \<open>PositionedCommit\<close> are written \<open>hash'\<close>, \<open>parents'\<close> and \<open>column'\<close>.

  The lane state is a list of slots; a slot is free (\<open>None\<close>) or holds the hash of the
  commit expected in that column and the colour it carries.  Where the specification is
  silent the model reads it as follows: "the lowest free column" of a list with no free
  slot is a new column at its end, "a newly allocated column" for an additional parent is
  the lowest free column, and an additional parent gets a fresh colour.  The claim about
  linear histories does not depend on these readings, since it has no additional parent.
\<close>

record Commit =
  hash' :: string
  parents' :: "string list"
  refs :: "string list"

record PositionedCommit =
  row :: nat
  column' :: nat
  colorIndex :: nat

type_synonym lane = "(string \<times> nat) option"

record builder =
  lanes :: "lane list"
  nextColor :: nat

definition paletteSize :: nat where
  "paletteSize = 8"

fun reservedSlot :: "string \<Rightarrow> lane list \<Rightarrow> (nat \<times> nat) option" where
  "reservedSlot h [] = None"
| "reservedSlot h (None # ls) = map_option (\<lambda>(i, c). (Suc i, c)) (reservedSlot h ls)"
| "reservedSlot h (Some (h', c) # ls) =
     (if h' = h then Some (0, c) else map_option (\<lambda>(i, c). (Suc i, c)) (reservedSlot h ls))"

fun lowestFree :: "lane list \<Rightarrow> nat" where
  "lowestFree [] = 0"
| "lowestFree (None # ls) = 0"
| "lowestFree (Some x # ls) = Suc (lowestFree ls)"

definition setLane :: "nat \<Rightarrow> lane \<Rightarrow> lane list \<Rightarrow> lane list" where
  "setLane i l ls =
     (if i < length ls then ls[i := l] else ls @ replicate (i - length ls) None @ [l])"

text \<open>
  Modelled from the spec: step 2a and 2b, the column and colour of the commit of the
  current row, and the lane state with the commit's slot free.
\<close>

definition placeCommit :: "builder \<Rightarrow> Commit \<Rightarrow> (nat \<times> nat) \<times> builder" where
  "placeCommit b c =
     (case reservedSlot (hash' c) (lanes b) of
        Some (i, colr) \<Rightarrow> ((i, colr), b\<lparr>lanes := (lanes b)[i := None]\<rparr>)
      | None \<Rightarrow>
          ((lowestFree (lanes b), nextColor b mod paletteSize),
           b\<lparr>lanes := setLane (lowestFree (lanes b)) None (lanes b),
             nextColor := nextColor b + 1\<rparr>))"

text \<open>
  Modelled from the spec: step 2c, the reservations for the parents in parent order.  The
  flag tells whether the parent is the first of the commit.
\<close>

fun reserveParents :: "nat \<Rightarrow> nat \<Rightarrow> bool \<Rightarrow> builder \<Rightarrow> string list \<Rightarrow> builder" where
  "reserveParents col colr first b [] = b"
| "reserveParents col colr first b (p # ps) =
     (case reservedSlot p (lanes b) of
        Some s \<Rightarrow> reserveParents col colr False b ps
      | None \<Rightarrow>
          if first then
            reserveParents col colr False (b\<lparr>lanes := setLane col (Some (p, colr)) (lanes b)\<rparr>) ps
          else
            reserveParents col colr False
              (b\<lparr>lanes := setLane (lowestFree (lanes b)) (Some (p, nextColor b mod paletteSize)) (lanes b),
                 nextColor := nextColor b + 1\<rparr>) ps)"

text \<open>Modelled from the spec: the single forward pass over the rows, and \<open>build\<close>.\<close>

fun buildLoop :: "builder \<Rightarrow> nat \<Rightarrow> Commit list \<Rightarrow> PositionedCommit list" where
  "buildLoop b r [] = []"
| "buildLoop b r (c # cs) =
     (case placeCommit b c of
        ((col, colr), b1) \<Rightarrow>
          \<lparr>row = r, column' = col, colorIndex = colr\<rparr>
            # buildLoop (reserveParents col colr True b1 (parents' c)) (Suc r) cs)"

definition build :: "Commit list \<Rightarrow> PositionedCommit list" where
  "build commits = buildLoop \<lparr>lanes = [], nextColor = 0\<rparr> 0 commits"

text \<open>
  A history that is one line in row order: every commit has no parent or exactly one, and
  the parent of a commit that is not in the last row is the commit of the next row.
\<close>

fun chain :: "Commit list \<Rightarrow> bool" where
  "chain [] = True"
| "chain [c] = (length (parents' c) \<le> 1)"
| "chain (c # d # cs) = ((parents' c = [] \<or> parents' c = [hash' d]) \<and> chain (d # cs))"

section \<open>The handlers of the graph view's context menu\<close>

text \<open>
  A handler is modelled by the calls it makes, in order.  The results of \<open>prompt\<close> (\<open>None\<close>
  is \<open>null\<close>), of \<open>confirm\<close> and of the awaited \<open>invoke\<close> (\<open>ok\<close>: the promise is fulfilled) are
  its inputs.  \<open>OnRefresh\<close> is the statement \<open>onRefresh?.()\<close>.  The texts of the toasts are
  left out.
\<close>

datatype arg = Str string | Bool bool | Null

datatype effect =
    Invoke string "(string \<times> arg) list"
  | ToastSuccess
  | ToastError
  | FetchGraph
  | OnRefresh

text \<open>\<open>String.prototype.trim\<close> on code units below 256.\<close>

definition whiteSpace :: "char \<Rightarrow> bool" where
  "whiteSpace c = (c \<in> {CHR 0x09, CHR 0x0A, CHR 0x0B, CHR 0x0C, CHR 0x0D, CHR 0x20, CHR 0xA0})"

definition trim :: "string \<Rightarrow> string" where
  "trim s = rev (dropWhile whiteSpace (rev (dropWhile whiteSpace s)))"

definition handleCheckout :: "string \<Rightarrow> string \<Rightarrow> bool \<Rightarrow> effect list" where
  "handleCheckout repoPath h ok =
     Invoke ''checkout_commit'' [(''path'', Str repoPath), (''commitHash'', Str h)]
       # (if ok then [ToastSuccess, FetchGraph, OnRefresh] else [ToastError])"

definition handleCreateBranch :: "string \<Rightarrow> string \<Rightarrow> string option \<Rightarrow> bool \<Rightarrow> effect list" where
  "handleCreateBranch repoPath h prompted ok =
     (case prompted of
        None \<Rightarrow> []
      | Some branchName \<Rightarrow>
          if trim branchName = [] then []
          else
            Invoke ''create_branch_at''
                [(''path'', Str repoPath), (''branchName'', Str (trim branchName)), (''commitHash'', Str h)]
              # (if ok then [ToastSuccess, FetchGraph, OnRefresh] else [ToastError]))"

definition handleResetTo :: "string \<Rightarrow> string \<Rightarrow> string \<Rightarrow> bool \<Rightarrow> bool \<Rightarrow> effect list" where
  "handleResetTo repoPath h mode confirmed ok =
     (if mode = ''hard'' \<and> \<not> confirmed then []
      else
        Invoke ''reset_to_commit'' [(''path'', Str repoPath), (''commitHash'', Str h), (''mode'', Str mode)]
          # (if ok then [ToastSuccess, FetchGraph, OnRefresh] else [ToastError]))"

definition handleCreateTag :: "string \<Rightarrow> string \<Rightarrow> string option \<Rightarrow> bool \<Rightarrow> effect list" where
  "handleCreateTag repoPath h prompted ok =
     (case prompted of
        None \<Rightarrow> []
      | Some tagName \<Rightarrow>
          if trim tagName = [] then []
          else
            Invoke ''create_tag''
                [(''path'', Str repoPath), (''tagName'', Str (trim tagName)), (''commitHash'', Str h)]
              # (if ok then [ToastSuccess, FetchGraph] else [ToastError]))"

definition handleCherryPick :: "string \<Rightarrow> string \<Rightarrow> bool \<Rightarrow> effect list" where
  "handleCherryPick repoPath h ok =
     Invoke ''cherry_pick'' [(''path'', Str repoPath), (''commitHash'', Str h)]
       # (if ok then [ToastSuccess, FetchGraph, OnRefresh] else [ToastError])"

definition handleRevert :: "string \<Rightarrow> string \<Rightarrow> bool \<Rightarrow> effect list" where
  "handleRevert repoPath h ok =
     Invoke ''revert_commit'' [(''path'', Str repoPath), (''commitHash'', Str h)]
       # (if ok then [ToastSuccess, FetchGraph, OnRefresh] else [ToastError])"

definition handleStashSave :: "string \<Rightarrow> string option \<Rightarrow> bool \<Rightarrow> effect list" where
  "handleStashSave repoPath prompted ok =
     Invoke ''stash_save''
         [(''path'', Str repoPath),
          (''message'', (case prompted of None \<Rightarrow> Null
                         | Some m \<Rightarrow> if m = [] then Null else Str m))]
       # (if ok then [ToastSuccess, OnRefresh] else [ToastError])"

definition handleStashPop :: "string \<Rightarrow> bool \<Rightarrow> effect list" where
  "handleStashPop repoPath ok =
     Invoke ''stash_pop'' [(''path'', Str repoPath)]
       # (if ok then [ToastSuccess, FetchGraph, OnRefresh] else [ToastError])"

definition handleMergeBranch :: "string \<Rightarrow> string \<Rightarrow> bool \<Rightarrow> effect list" where
  "handleMergeBranch repoPath branchName ok =
     Invoke ''merge_branch'' [(''path'', Str repoPath), (''branchName'', Str branchName)]
       # (if ok then [ToastSuccess, FetchGraph, OnRefresh] else [ToastError])"

definition handleRebase :: "string \<Rightarrow> string \<Rightarrow> bool \<Rightarrow> effect list" where
  "handleRebase repoPath branchName ok =
     Invoke ''rebase_onto'' [(''path'', Str repoPath), (''branchName'', Str branchName)]
       # (if ok then [ToastSuccess, FetchGraph, OnRefresh] else [ToastError])"

definition handleDeleteBranch :: "string \<Rightarrow> string \<Rightarrow> bool \<Rightarrow> bool \<Rightarrow> bool \<Rightarrow> effect list" where
  "handleDeleteBranch repoPath branchName force confirmed ok =
     (if \<not> confirmed then []
      else
        Invoke ''delete_branch''
            [(''path'', Str repoPath), (''branchName'', Str branchName), (''force'', Bool force)]
          # (if ok then [ToastSuccess, FetchGraph, OnRefresh] else [ToastError]))"

definition handleRenameBranch :: "string \<Rightarrow> string \<Rightarrow> string option \<Rightarrow> bool \<Rightarrow> effect list" where
  "handleRenameBranch repoPath oldName prompted ok =
     (case prompted of
        None \<Rightarrow> []
      | Some newName \<Rightarrow>
          if trim newName = [] \<or> newName = oldName then []
          else
            Invoke ''rename_branch''
                [(''path'', Str repoPath), (''oldName'', Str oldName), (''newName'', Str (trim newName))]
              # (if ok then [ToastSuccess, FetchGraph, OnRefresh] else [ToastError]))"

text \<open>
  \<open>fetchGraph\<close> on the state of the component: the result of \<open>getGraphLog(repoPath, 50)\<close> is
  its input, \<open>Inl\<close> the message of a rejection.  The fetched list replaces \<open>commits\<close> whole.
  The fields \<open>commits\<close> and \<open>error\<close> are written \<open>commits'\<close> and \<open>error'\<close>.
\<close>

record graphState =
  commits' :: "GraphCommit list"
  loading :: bool
  error' :: "string option"

definition fetchGraph :: "string + GraphCommit list \<Rightarrow> graphState \<Rightarrow> graphState" where
  "fetchGraph result st =
     (case result of
        Inr data \<Rightarrow> st\<lparr>commits' := data, loading := False, error' := None\<rparr>
      | Inl msg \<Rightarrow> st\<lparr>loading := False, error' := Some msg\<rparr>)"

section \<open>The debounced listener of \<open>git-changed\<close>\<close>

text \<open>
  The timers of the host, with time in whole milliseconds.  A pending timer is its handle
  and the time at which it is due; \<open>setTimeout\<close> returns a fresh handle, \<open>clearTimeout\<close>
  removes the timer with the handle if it is pending and does nothing otherwise.  Handles
  are positive integers, so the first one is 1.  A timer's
  callback runs at the time it is due: the delays of the event loop are not modelled.  The
  pending timers are kept in the order they were set, which is the order they are due in,
  since every timer here has the same delay.
\<close>

record timers =
  nextHandle :: nat
  pending :: "(nat \<times> nat) list"

definition setTimeout :: "nat \<Rightarrow> nat \<Rightarrow> timers \<Rightarrow> nat \<times> timers" where
  "setTimeout now delay h =
     (nextHandle h, h\<lparr>nextHandle := Suc (nextHandle h), pending := pending h @ [(nextHandle h, now + delay)]\<rparr>)"

definition clearTimeout :: "nat \<Rightarrow> timers \<Rightarrow> timers" where
  "clearTimeout t h = h\<lparr>pending := filter (\<lambda>(i, due). i \<noteq> t) (pending h)\<rparr>"

text \<open>
  The effect's variable \<open>debounceTimer\<close> (\<open>None\<close> is \<open>null\<close>), the timers of the host, and the
  times at which \<open>fetchRepoInfo\<close> was called.
\<close>

record world =
  debounceTimer :: "nat option"
  host :: timers
  fetched :: "nat list"

definition initialWorld :: world where
  "initialWorld = \<lparr>debounceTimer = None, host = \<lparr>nextHandle = 1, pending = []\<rparr>, fetched = []\<rparr>"

text \<open>
  The listener of \<open>git-changed\<close>, called at the time \<open>now\<close>.  \<open>if (debounceTimer)\<close> tests
  the handle for truth: \<open>null\<close> and 0 are false.
\<close>

definition onGitChanged :: "nat \<Rightarrow> world \<Rightarrow> world" where
  "onGitChanged now w =
     (let h1 = (case debounceTimer w of
                  Some t \<Rightarrow> if t \<noteq> 0 then clearTimeout t (host w) else host w
                | None \<Rightarrow> host w);
          (t, h2) = setTimeout now 300 h1
      in w\<lparr>debounceTimer := Some t, host := h2\<rparr>)"

text \<open>
  The host runs the callbacks of the timers due at \<open>now\<close> or before; the callback of every
  timer of this effect calls \<open>fetchRepoInfo\<close>.  A timer due at the very time of a
  notification runs before the listener.
\<close>

definition runTimers :: "nat \<Rightarrow> world \<Rightarrow> world" where
  "runTimers now w =
     w\<lparr>host := (host w)\<lparr>pending := filter (\<lambda>(i, due). now < due) (pending (host w))\<rparr>,
       fetched := fetched w @ map snd (filter (\<lambda>(i, due). due \<le> now) (pending (host w)))\<rparr>"

fun notifications :: "world \<Rightarrow> nat list \<Rightarrow> world" where
  "notifications w [] = w"
| "notifications w (t # ts) = notifications (onGitChanged t (runTimers t w)) ts"

text \<open>
  The times of the calls of \<open>fetchRepoInfo\<close> for notifications at the times \<open>ts\<close>, once the
  timers left pending have run.
\<close>

definition fetchTimes :: "nat list \<Rightarrow> nat list" where
  "fetchTimes ts =
     (let w = notifications initialWorld ts
      in fetched w @ map snd (pending (host w)))"

text \<open>
  The last notification of every burst: a notification that has no later one, or whose
  next one comes 300 milliseconds later or more.
\<close>

fun burstEnds :: "nat list \<Rightarrow> nat list" where
  "burstEnds [] = []"
| "burstEnds [t] = [t]"
| "burstEnds (t # u # ts) = (if u - t < 300 then burstEnds (u # ts) else t # burstEnds (u # ts))"

fun closeGaps :: "nat list \<Rightarrow> bool" where
  "closeGaps [] = True"
| "closeGaps [t] = True"
| "closeGaps (t # u # ts) = (u - t < 300 \<and> closeGaps (u # ts))"

section \<open>Basic facts about the string functions\<close>

lemma startsWith_prefix: "startsWith s p = prefix p s"
  by (induction s p rule: startsWith.induct) auto

lemma splitFrom_nonempty: "splitFrom acc s \<noteq> []"
  by (induction s arbitrary: acc) auto


lemma search_first: "m s = Some r \<Longrightarrow> search m s = Some r"
  by (cases s) simp_all

lemma lit_append: "lit p k (p @ s) = k s"
  by (induction p) simp_all

lemma lit_Some: "lit p k s = Some v \<Longrightarrow> \<exists>r. s = p @ r \<and> k r = Some v"
  by (induction p k s rule: lit.induct) (auto split: if_splits)

lemma star_matched: "star P matched s = Some (takeWhile P s, ())"
  by (induction s) (simp_all add: matched_def)

lemma star_None:
  "star P k s = None \<longleftrightarrow> (\<forall>g r. s = g @ r \<and> (\<forall>c\<in>set g. P c) \<longrightarrow> k r = None)"
proof (induction s)
  case Nil
  then show ?case by auto
next
  case (Cons c cs)
  show ?case
  proof (cases "P c")
    case True
    show ?thesis
    proof
      assume a: "star P k (c # cs) = None"
      with True have n1: "star P k cs = None" and n2: "k (c # cs) = None"
        by (auto split: option.splits)
      show "\<forall>g r. c # cs = g @ r \<and> (\<forall>c\<in>set g. P c) \<longrightarrow> k r = None"
      proof (intro allI impI)
        fix g r assume h: "c # cs = g @ r \<and> (\<forall>c\<in>set g. P c)"
        show "k r = None"
        proof (cases g)
          case Nil
          with h n2 show ?thesis by simp
        next
          case (Cons a g')
          with h have "cs = g' @ r" "\<forall>c\<in>set g'. P c" by auto
          with n1 Cons.IH show ?thesis by blast
        qed
      qed
    next
      assume a: "\<forall>g r. c # cs = g @ r \<and> (\<forall>c\<in>set g. P c) \<longrightarrow> k r = None"
      have "k (c # cs) = None" using a [rule_format, of "[]" "c # cs"] by simp
      moreover have "star P k cs = None"
      proof -
        have "\<forall>g r. cs = g @ r \<and> (\<forall>c\<in>set g. P c) \<longrightarrow> k r = None"
        proof (intro allI impI)
          fix g r assume "cs = g @ r \<and> (\<forall>c\<in>set g. P c)"
          then show "k r = None" using a [rule_format, of "c # g" r] True by simp
        qed
        then show ?thesis using Cons.IH by blast
      qed
      ultimately show "star P k (c # cs) = None" using True by simp
    qed
  next
    case False
    show ?thesis
    proof
      assume a: "star P k (c # cs) = None"
      with False have n2: "k (c # cs) = None" by auto
      show "\<forall>g r. c # cs = g @ r \<and> (\<forall>c\<in>set g. P c) \<longrightarrow> k r = None"
      proof (intro allI impI)
        fix g r assume h: "c # cs = g @ r \<and> (\<forall>c\<in>set g. P c)"
        with False have "g = []" by (cases g) auto
        with h n2 show "k r = None" by simp
      qed
    next
      assume a: "\<forall>g r. c # cs = g @ r \<and> (\<forall>c\<in>set g. P c) \<longrightarrow> k r = None"
      have "k (c # cs) = None" using a [rule_format, of "[]" "c # cs"] by simp
      then show "star P k (c # cs) = None" using False by simp
    qed
  qed
qed

lemma star_greedy:
  "\<forall>c\<in>set g. P c \<Longrightarrow> k r = Some v \<Longrightarrow>
   (\<forall>w r'. w \<noteq> [] \<and> r = w @ r' \<and> (\<forall>c\<in>set w. P c) \<longrightarrow> k r' = None) \<Longrightarrow>
   star P k (g @ r) = Some (g, v)"
proof (induction g)
  case Nil
  show ?case
  proof (cases r)
    case Nil
    with Nil.prems show ?thesis by simp
  next
    case (Cons c cs)
    show ?thesis
    proof (cases "P c")
      case True
      have "star P k cs = None"
        unfolding star_None
      proof (intro allI impI)
        fix g' r' assume "cs = g' @ r' \<and> (\<forall>c\<in>set g'. P c)"
        then show "k r' = None"
          using Nil.prems(3) [rule_format, of "c # g'" r'] True Cons by simp
      qed
      with Nil.prems Cons True show ?thesis by simp
    next
      case False
      with Nil.prems Cons show ?thesis by simp
    qed
  qed
next
  case (Cons a g)
  then show ?case by simp
qed



lemma sep_overlap:
  assumes "w \<noteq> []" and "'' b/'' @ Y = w @ '' b/'' @ r"
  shows "\<exists>u. Y = u @ '' b/'' @ r"
proof -
  from assms obtain w1 where w1: "w = CHR '' '' # w1" by (cases w) auto
  with assms have e1: "''b/'' @ Y = w1 @ '' b/'' @ r" by simp
  then obtain w2 where w2: "w1 = CHR ''b'' # w2" by (cases w1) auto
  with e1 have e2: "''/'' @ Y = w2 @ '' b/'' @ r" by simp
  then obtain w3 where w3: "w2 = CHR ''/'' # w3" by (cases w2) auto
  with e2 have "Y = w3 @ '' b/'' @ r" by simp
  then show ?thesis by blast
qed



lemma header_standard:
  assumes X: "\<forall>c\<in>set X. \<not> lineTerminator c" and Y: "\<forall>c\<in>set Y. \<not> lineTerminator c"
    and nosub: "\<not> sublist '' b/'' Y"
  shows "matchHeader (''diff --git a/'' @ X @ '' b/'' @ Y) = Some (X, Y)"
proof -
  define sep where "sep = '' b/''"
  define k where "k = lit sep (star dot matched)"
  have tw: "takeWhile dot Y = Y"
    using Y by (simp add: dot_def)
  have k: "k (sep @ Y) = Some (Y, ())"
    unfolding k_def by (simp only: lit_append star_matched tw)
  have longer: "\<forall>w r'. w \<noteq> [] \<and> sep @ Y = w @ r' \<and> (\<forall>c\<in>set w. dot c) \<longrightarrow> k r' = None"
  proof (intro allI impI)
    fix w r' assume h: "w \<noteq> [] \<and> sep @ Y = w @ r' \<and> (\<forall>c\<in>set w. dot c)"
    show "k r' = None"
    proof (rule ccontr)
      assume "k r' \<noteq> None"
      then obtain v where kv: "k r' = Some v" by auto
      obtain r'' where r': "r' = sep @ r''"
        using lit_Some [OF kv [unfolded k_def]] by blast
      with h have "sep @ Y = w @ sep @ r''" "w \<noteq> []" by auto
      then have "\<exists>u. Y = u @ sep @ r''"
        unfolding sep_def by (rule sep_overlap [rotated])
      with nosub show False unfolding sep_def sublist_def by blast
    qed
  qed
  have X': "\<forall>c\<in>set X. dot c" using X by (simp add: dot_def)
  have "star dot k (X @ sep @ Y) = Some (X, Y, ())"
    using star_greedy [OF X' k longer] .
  then have "headerPattern (''diff --git a/'' @ (X @ sep @ Y)) = Some (X, Y, ())"
    unfolding headerPattern_def k_def sep_def by (simp only: lit_append)
  then have "search headerPattern (''diff --git a/'' @ (X @ sep @ Y)) = Some (X, Y, ())"
    by (rule search_first)
  then show ?thesis unfolding sep_def matchHeader_def by (simp del: search.simps)
qed


section \<open>The loop of \<open>parseDiffByFile\<close> and the sections of the text\<close>

lemma parseLoop_sections:
  "(case parseLoop files cur ls of (fs, Some f) \<Rightarrow> fs @ [f] | (fs, None) \<Rightarrow> fs) =
     files @ (case cur of None \<Rightarrow> []
              | Some f \<Rightarrow> [f\<lparr>lines := lines f @ takeWhile (\<lambda>x. \<not> isBoundary x) ls\<rparr>])
       @ map (\<lambda>(b, body). \<lparr>name = (case matchHeader b of Some (g1, g2) \<Rightarrow> g2 | None \<Rightarrow> b),
                            stats = [], lines = body\<rparr>) (splitAtBoundaries ls)"
proof (induction ls arbitrary: files cur)
  case Nil
  then show ?case by (simp split: option.splits)
next
  case (Cons l ls)
  show ?case
  proof (cases "isBoundary l")
    case True
    then show ?thesis
      using Cons.IH [of "case cur of Some f \<Rightarrow> files @ [f] | None \<Rightarrow> files"]
      by (simp add: startsWith_prefix isBoundary_def split: option.splits)
  next
    case False
    then show ?thesis
      using Cons.IH
      by (simp add: startsWith_prefix isBoundary_def split: option.splits)
  qed
qed

lemma parseDiffByFile_sections:
  "parseDiffByFile diff =
     map (\<lambda>(b, body). \<lparr>name = (case matchHeader b of Some (g1, g2) \<Rightarrow> g2 | None \<Rightarrow> b),
                        stats = [], lines = body\<rparr>) (splitAtBoundaries (splitLines diff))"
  using parseLoop_sections [of "[]" None "splitLines diff"]
  by (simp add: parseDiffByFile_def)

lemma idx_shift:
  "map ((!) (l # ls)) (filter Q [0..<Suc (length ls)]) =
     (if Q 0 then [l] else []) @ map ((!) ls) (filter (Q \<circ> Suc) [0..<length ls])"
proof -
  have "[0..<Suc (length ls)] = 0 # map Suc [0..<length ls]"
    by (simp add: upt_conv_Cons map_Suc_upt del: upt_Suc)
  then show ?thesis
    by (simp add: filter_map comp_def del: upt_Suc)
qed

lemma owned_before_first:
  "map ((!) ls) (filter (\<lambda>i. \<not> isBoundary (ls ! i) \<and> length (filter isBoundary (take i ls)) = 0) [0..<length ls])
     = takeWhile (\<lambda>x. \<not> isBoundary x) ls"
proof (induction ls)
  case Nil
  then show ?case by simp
next
  case (Cons l ls)
  show ?case
  proof (cases "isBoundary l")
    case True
    then show ?thesis
      by (simp add: idx_shift comp_def del: upt_Suc)
  next
    case False
    then show ?thesis
      using Cons.IH by (simp add: idx_shift comp_def del: upt_Suc)
  qed
qed

lemma linesOwnedBy_Cons:
  "linesOwnedBy j (l # ls) =
     (if isBoundary l then (case j of 0 \<Rightarrow> takeWhile (\<lambda>x. \<not> isBoundary x) ls | Suc j' \<Rightarrow> linesOwnedBy j' ls)
      else linesOwnedBy j ls)"
proof (cases "isBoundary l")
  case True
  show ?thesis
  proof (cases j)
    case 0
    with True show ?thesis
      using owned_before_first [of ls]
      by (simp add: linesOwnedBy_def idx_shift comp_def del: upt_Suc)
  next
    case (Suc j')
    with True show ?thesis
      by (simp add: linesOwnedBy_def idx_shift comp_def del: upt_Suc)
  qed
next
  case False
  then show ?thesis
    by (simp add: linesOwnedBy_def idx_shift comp_def del: upt_Suc)
qed

lemma length_splitAtBoundaries:
  "length (splitAtBoundaries ls) = length (filter isBoundary ls)"
  by (induction ls) simp_all

lemma splitAtBoundaries_owned:
  "j < length (splitAtBoundaries ls) \<Longrightarrow> snd (splitAtBoundaries ls ! j) = linesOwnedBy j ls"
proof (induction ls arbitrary: j)
  case Nil
  then show ?case by simp
next
  case (Cons l ls)
  show ?case
  proof (cases "isBoundary l")
    case True
    then show ?thesis
      using Cons by (cases j) (simp_all add: linesOwnedBy_Cons)
  next
    case False
    then show ?thesis
      using Cons by (simp add: linesOwnedBy_Cons)
  qed
qed

lemma splitAtBoundaries_none:
  "\<forall>l\<in>set ls. \<not> isBoundary l \<Longrightarrow> splitAtBoundaries ls = []"
  by (induction ls) simp_all


lemma takeWhile_filter_dropWhile:
  "takeWhile P ls @ filter P (dropWhile P ls) = filter P ls"
  by (induction ls) simp_all

lemma concat_splitAtBoundaries:
  "concat (map snd (splitAtBoundaries ls)) =
     filter (\<lambda>x. \<not> isBoundary x) (dropWhile (\<lambda>x. \<not> isBoundary x) ls)"
  by (induction ls) (simp_all add: takeWhile_filter_dropWhile)

lemma statsLoop_count:
  "statsLoop a r ls =
     \<lparr>added = a + length (filter (\<lambda>l. prefix ''+'' l \<and> \<not> prefix ''+++'' l) ls),
      removed = r + length (filter (\<lambda>l. prefix ''-'' l \<and> \<not> prefix ''---'' l) ls)\<rparr>"
  by (induction ls arbitrary: a r) (simp_all add: startsWith_prefix Let_def)

section \<open>The counts, the files and their lines\<close>

text \<open>
  C1.  \<open>getDiffStats\<close> counts as added exactly the lines that begin with \<open>+\<close> and do not
  begin with \<open>+++\<close>, and as removed exactly the lines that begin with \<open>-\<close> and do not begin
  with \<open>---\<close>.  The seven lines of the example, joined by line feeds, parse to exactly one
  file named \<open>x\<close>, whose lines give \<open>added = 1\<close> and \<open>removed = 1\<close>.
\<close>

theorem getDiffStats_counts:
  "getDiffStats ls =
     \<lparr>added = length (filter (\<lambda>l. prefix ''+'' l \<and> \<not> prefix ''+++'' l) ls),
      removed = length (filter (\<lambda>l. prefix ''-'' l \<and> \<not> prefix ''---'' l) ls)\<rparr>
   \<and> parseDiffByFile
        ''diff --git a/x b/x\<newline>index 123..456\<newline>--- a/x\<newline>+++ b/x\<newline>@@ -1,1 +1,1 @@\<newline>-bar\<newline>+foo''
      = [\<lparr>name = ''x'', stats = [],
          lines = [''index 123..456'', ''--- a/x'', ''+++ b/x'', ''@@ -1,1 +1,1 @@'', ''-bar'', ''+foo'']\<rparr>]
   \<and> map (\<lambda>file. getDiffStats (lines file))
        (parseDiffByFile
          ''diff --git a/x b/x\<newline>index 123..456\<newline>--- a/x\<newline>+++ b/x\<newline>@@ -1,1 +1,1 @@\<newline>-bar\<newline>+foo'')
      = [\<lparr>added = 1, removed = 1\<rparr>]"
proof (intro conjI)
  show "getDiffStats ls =
     \<lparr>added = length (filter (\<lambda>l. prefix ''+'' l \<and> \<not> prefix ''+++'' l) ls),
      removed = length (filter (\<lambda>l. prefix ''-'' l \<and> \<not> prefix ''---'' l) ls)\<rparr>"
    by (simp add: getDiffStats_def statsLoop_count)
  show p: "parseDiffByFile
        ''diff --git a/x b/x\<newline>index 123..456\<newline>--- a/x\<newline>+++ b/x\<newline>@@ -1,1 +1,1 @@\<newline>-bar\<newline>+foo''
      = [\<lparr>name = ''x'', stats = [],
          lines = [''index 123..456'', ''--- a/x'', ''+++ b/x'', ''@@ -1,1 +1,1 @@'', ''-bar'', ''+foo'']\<rparr>]"
    by (simp add: parseDiffByFile_def splitLines_def matchHeader_def headerPattern_def dot_def
        lineTerminator_def matched_def)
  have "getDiffStats
        [''index 123..456'', ''--- a/x'', ''+++ b/x'', ''@@ -1,1 +1,1 @@'', ''-bar'', ''+foo'']
      = \<lparr>added = 1, removed = 1\<rparr>"
    by (simp add: getDiffStats_def)
  then show "map (\<lambda>file. getDiffStats (lines file))
        (parseDiffByFile
          ''diff --git a/x b/x\<newline>index 123..456\<newline>--- a/x\<newline>+++ b/x\<newline>@@ -1,1 +1,1 @@\<newline>-bar\<newline>+foo'')
      = [\<lparr>added = 1, removed = 1\<rparr>]"
    by (simp only: p list.map DiffFile.simps)
qed

text \<open>
  C3.  A text none of whose lines begins with \<open>diff --git\<close> parses to the empty list of
  files, and so does the empty text.  \<open>parseDiffByFile\<close> applies \<open>split\<close>, \<open>startsWith\<close>,
  \<open>match\<close> and \<open>push\<close> to strings and arrays only, none of which throws: the model is a
  total function with no error result.
\<close>

theorem parseDiffByFile_no_boundary:
  "((\<forall>l\<in>set (splitLines diff). \<not> isBoundary l) \<longrightarrow> parseDiffByFile diff = [])
   \<and> parseDiffByFile [] = []"
proof (intro conjI impI)
  assume "\<forall>l\<in>set (splitLines diff). \<not> isBoundary l"
  then show "parseDiffByFile diff = []"
    by (simp add: parseDiffByFile_sections splitAtBoundaries_none)
next
  show "parseDiffByFile [] = []"
    by (simp add: parseDiffByFile_def splitLines_def)
qed

theorem parseDiffByFile_no_boundary_witness:
  "splitLines ''hello\<newline>@@ -1 +1 @@\<newline>+world'' = [''hello'', ''@@ -1 +1 @@'', ''+world'']
   \<and> \<not> isBoundary ''hello'' \<and> \<not> isBoundary ''@@ -1 +1 @@'' \<and> \<not> isBoundary ''+world''
   \<and> parseDiffByFile ''hello\<newline>@@ -1 +1 @@\<newline>+world'' = []"
proof -
  have s: "splitLines ''hello\<newline>@@ -1 +1 @@\<newline>+world'' = [''hello'', ''@@ -1 +1 @@'', ''+world'']"
    by (simp add: splitLines_def)
  have b: "\<not> isBoundary ''hello'' \<and> \<not> isBoundary ''@@ -1 +1 @@'' \<and> \<not> isBoundary ''+world''"
    by (simp add: isBoundary_def)
  show ?thesis
    using parseDiffByFile_no_boundary [of "''hello\<newline>@@ -1 +1 @@\<newline>+world''"] s b
    by simp
qed

text \<open>
  C7.  For the file \<open>x.c\<close> in the directory \<open>lib b\<close> the boundary line is
  \<open>diff --git a/lib b/x.c b/lib b/x.c\<close>, with the destination path \<open>lib b/x.c\<close>.  The
  first group of the header pattern is greedy and runs to the last \<open>" b/"\<close> of the line, so
  group 2, and with it the name of the file, is \<open>x.c\<close> and not the destination path.  The
  lines of the two files of the text are those between the boundary lines, and the second
  boundary line, which the pattern does not match, is itself the name of the second file.
\<close>

theorem parseDiffByFile_name_not_destination:
  "''diff --git a/lib b/x.c b/lib b/x.c'' = ''diff --git a/'' @ ''lib b/x.c'' @ '' b/'' @ ''lib b/x.c''
   \<and> matchHeader ''diff --git a/lib b/x.c b/lib b/x.c'' = Some (''lib b/x.c b/lib'', ''x.c'')
   \<and> parseDiffByFile
        ''diff --git a/lib b/x.c b/lib b/x.c\<newline>--- a/lib b/x.c\<newline>+++ b/lib b/x.c\<newline>@@ -1 +1 @@\<newline>-a\<newline>+b\<newline>diff --git rename\<newline>-c''
      = [\<lparr>name = ''x.c'', stats = [],
          lines = [''--- a/lib b/x.c'', ''+++ b/lib b/x.c'', ''@@ -1 +1 @@'', ''-a'', ''+b'']\<rparr>,
         \<lparr>name = ''diff --git rename'', stats = [], lines = [''-c'']\<rparr>]
   \<and> ''x.c'' \<noteq> ''lib b/x.c''"
proof (intro conjI)
  show "''diff --git a/lib b/x.c b/lib b/x.c'' = ''diff --git a/'' @ ''lib b/x.c'' @ '' b/'' @ ''lib b/x.c''"
    by simp
  show "matchHeader ''diff --git a/lib b/x.c b/lib b/x.c'' = Some (''lib b/x.c b/lib'', ''x.c'')"
    by (simp add: matchHeader_def headerPattern_def dot_def lineTerminator_def matched_def)
  show "parseDiffByFile
        ''diff --git a/lib b/x.c b/lib b/x.c\<newline>--- a/lib b/x.c\<newline>+++ b/lib b/x.c\<newline>@@ -1 +1 @@\<newline>-a\<newline>+b\<newline>diff --git rename\<newline>-c''
      = [\<lparr>name = ''x.c'', stats = [],
          lines = [''--- a/lib b/x.c'', ''+++ b/lib b/x.c'', ''@@ -1 +1 @@'', ''-a'', ''+b'']\<rparr>,
         \<lparr>name = ''diff --git rename'', stats = [], lines = [''-c'']\<rparr>]"
    by (simp add: parseDiffByFile_def splitLines_def matchHeader_def headerPattern_def dot_def
        lineTerminator_def matched_def)
  show "''x.c'' \<noteq> ''lib b/x.c''"
    by simp
qed

text \<open>
  C10.  With the text split at line feeds, there are as many files as boundary lines, and
  the lines of file \<open>j\<close> are, in input order, exactly the lines that are no boundary line
  and have exactly \<open>j + 1\<close> boundary lines before them: the lines whose most recent
  preceding boundary line opened file \<open>j\<close>.  So a boundary line is in no file, a line with no
  boundary line before it is in no file, and every other line is in exactly one file; put
  end to end, the files' lines are the lines after the first boundary line that are no
  boundary line.
\<close>

theorem parseDiffByFile_partition:
  "length (parseDiffByFile diff) = length (filter isBoundary (splitLines diff))
   \<and> (\<forall>j<length (parseDiffByFile diff).
         lines (parseDiffByFile diff ! j) = linesOwnedBy j (splitLines diff))
   \<and> concat (map lines (parseDiffByFile diff)) =
       filter (\<lambda>l. \<not> isBoundary l) (dropWhile (\<lambda>l. \<not> isBoundary l) (splitLines diff))"
proof (intro conjI allI impI)
  show "length (parseDiffByFile diff) = length (filter isBoundary (splitLines diff))"
    by (simp add: parseDiffByFile_sections length_splitAtBoundaries)
next
  fix j assume "j < length (parseDiffByFile diff)"
  then have j: "j < length (splitAtBoundaries (splitLines diff))"
    by (simp add: parseDiffByFile_sections)
  then show "lines (parseDiffByFile diff ! j) = linesOwnedBy j (splitLines diff)"
    using splitAtBoundaries_owned [OF j]
    by (simp add: parseDiffByFile_sections split_beta)
next
  have "map lines (parseDiffByFile diff) = map snd (splitAtBoundaries (splitLines diff))"
    by (simp add: parseDiffByFile_sections split_beta)
  then show "concat (map lines (parseDiffByFile diff)) =
       filter (\<lambda>l. \<not> isBoundary l) (dropWhile (\<lambda>l. \<not> isBoundary l) (splitLines diff))"
    by (simp add: concat_splitAtBoundaries)
qed

theorem parseDiffByFile_partition_witness:
  "length (parseDiffByFile ''junk\<newline>diff --git a/x b/y\<newline>+a\<newline> b\<newline>diff --git a/u b/v\<newline>-c'') = 2
   \<and> lines (parseDiffByFile ''junk\<newline>diff --git a/x b/y\<newline>+a\<newline> b\<newline>diff --git a/u b/v\<newline>-c'' ! 0)
       = [''+a'', '' b'']
   \<and> lines (parseDiffByFile ''junk\<newline>diff --git a/x b/y\<newline>+a\<newline> b\<newline>diff --git a/u b/v\<newline>-c'' ! 1)
       = [''-c'']"
proof -
  let ?d = "''junk\<newline>diff --git a/x b/y\<newline>+a\<newline> b\<newline>diff --git a/u b/v\<newline>-c''"
  have s: "splitLines ?d = [''junk'', ''diff --git a/x b/y'', ''+a'', '' b'', ''diff --git a/u b/v'', ''-c'']"
    by (simp add: splitLines_def)
  have n: "length (parseDiffByFile ?d) = 2"
    using parseDiffByFile_partition [of ?d] by (simp add: s isBoundary_def)
  have o0: "linesOwnedBy 0 (splitLines ?d) = [''+a'', '' b'']"
    by (simp add: s linesOwnedBy_def isBoundary_def upt_rec)
  have o1: "linesOwnedBy 1 (splitLines ?d) = [''-c'']"
    by (simp add: s linesOwnedBy_def isBoundary_def upt_rec)
  show ?thesis
    using parseDiffByFile_partition [of ?d] n o0 o1 by simp
qed

section \<open>The store keeps one entry for each path\<close>

lemma find_path_None: "find (\<lambda>r. path r = p) rs = None \<Longrightarrow> p \<notin> path ` set rs"
  by (auto simp: find_None_iff)

lemma addRepo_distinct:
  "distinct (map path (repos s)) \<Longrightarrow> distinct (map path (repos (addRepo uuid now p n s)))"
  by (auto simp: addRepo_def dest: find_path_None split: option.splits)

lemma removeRepo_distinct:
  "distinct (map path (repos s)) \<Longrightarrow> distinct (map path (repos (removeRepo i s)))"
  by (simp add: removeRepo_def distinct_map_filter)

lemma call_distinct:
  "distinct (map path (repos s)) \<Longrightarrow> distinct (map path (repos (call s c)))"
  by (cases c) (simp_all add: addRepo_distinct removeRepo_distinct selectRepo_def)

lemma stateAfter_distinct: "distinct (map path (repos (stateAfter calls)))"
proof (induction calls rule: rev_induct)
  case Nil
  then show ?case by (simp add: stateAfter_def initialState_def)
next
  case (snoc c calls)
  then show ?case
    using call_distinct [of "stateAfter calls" c] by (simp add: stateAfter_def)
qed

lemma addRepo_existing:
  assumes d: "distinct (map path (repos s))" and e: "e \<in> set (repos s)" and p: "path e = p"
  shows "addRepo uuid now p n s = s\<lparr>selectedRepoId := Some (id' e)\<rparr>"
proof -
  from e p obtain e' where f: "find (\<lambda>r. path r = p) (repos s) = Some e'"
    by (cases "find (\<lambda>r. path r = p) (repos s)") (auto simp: find_None_iff)
  then have "e' \<in> set (repos s)" "path e' = p"
    by (auto simp: find_Some_iff)
  with d e p have "e' = e"
    by (auto simp: distinct_map inj_on_def)
  with f show ?thesis by (simp add: addRepo_def)
qed

text \<open>
  C9.  In every state reached from the initial state by calls of \<open>addRepo\<close>, \<open>removeRepo\<close>
  and \<open>selectRepo\<close>, the paths of the entries of \<open>repos\<close> are pairwise different; and in such
  a state \<open>addRepo\<close> with the path of an entry \<open>e\<close> changes nothing but \<open>selectedRepoId\<close>,
  which becomes the id of \<open>e\<close>.
\<close>

theorem store_paths_distinct:
  "distinct (map path (repos (stateAfter calls)))
   \<and> (\<forall>e\<in>set (repos (stateAfter calls)). path e = p \<longrightarrow>
         addRepo uuid now p n (stateAfter calls) = (stateAfter calls)\<lparr>selectedRepoId := Some (id' e)\<rparr>)"
  using stateAfter_distinct addRepo_existing by blast

theorem store_paths_distinct_witness:
  "repos (stateAfter [AddRepo ''u1'' ''t1'' ''/a'' ''a'', AddRepo ''u2'' ''t2'' ''/b'' ''b'',
                      SelectRepo None, AddRepo ''u3'' ''t3'' ''/a'' ''again'', RemoveRepo ''u2'',
                      AddRepo ''u4'' ''t4'' ''/b'' ''b'']) =
     [\<lparr>id' = ''u1'', path = ''/a'', name' = ''a'', addedAt = ''t1''\<rparr>,
      \<lparr>id' = ''u4'', path = ''/b'', name' = ''b'', addedAt = ''t4''\<rparr>]
   \<and> addRepo ''u5'' ''t5'' ''/a'' ''third''
        (stateAfter [AddRepo ''u1'' ''t1'' ''/a'' ''a'', AddRepo ''u2'' ''t2'' ''/b'' ''b'',
                      SelectRepo None, AddRepo ''u3'' ''t3'' ''/a'' ''again'', RemoveRepo ''u2'',
                      AddRepo ''u4'' ''t4'' ''/b'' ''b''])
      = (stateAfter [AddRepo ''u1'' ''t1'' ''/a'' ''a'', AddRepo ''u2'' ''t2'' ''/b'' ''b'',
                      SelectRepo None, AddRepo ''u3'' ''t3'' ''/a'' ''again'', RemoveRepo ''u2'',
                      AddRepo ''u4'' ''t4'' ''/b'' ''b''])\<lparr>selectedRepoId := Some ''u1''\<rparr>"
proof -
  let ?cs = "[AddRepo ''u1'' ''t1'' ''/a'' ''a'', AddRepo ''u2'' ''t2'' ''/b'' ''b'',
                      SelectRepo None, AddRepo ''u3'' ''t3'' ''/a'' ''again'', RemoveRepo ''u2'',
                      AddRepo ''u4'' ''t4'' ''/b'' ''b'']"
  have r: "repos (stateAfter ?cs) =
     [\<lparr>id' = ''u1'', path = ''/a'', name' = ''a'', addedAt = ''t1''\<rparr>,
      \<lparr>id' = ''u4'', path = ''/b'', name' = ''b'', addedAt = ''t4''\<rparr>]"
    by (simp add: stateAfter_def initialState_def addRepo_def removeRepo_def selectRepo_def)
  show ?thesis
    using store_paths_distinct [of ?cs "''/a''" "''u5''" "''t5''" "''third''"] r
    by simp
qed

section \<open>The connectors of \<open>renderConnections\<close>\<close>

lemma indexLoop_None:
  "indexLoop m idx cs h = None \<longleftrightarrow> m h = None \<and> h \<notin> hash ` set cs"
  by (induction cs arbitrary: m idx) auto

lemma indexLoop_Some:
  "indexLoop m idx cs h = Some j \<Longrightarrow>
     (m h = Some j \<and> h \<notin> hash ` set cs) \<or> (idx \<le> j \<and> j < idx + length cs \<and> hash (cs ! (j - idx)) = h)"
proof (induction cs arbitrary: m idx)
  case Nil
  then show ?case by simp
next
  case (Cons c cs)
  from Cons.prems have "indexLoop (m(hash c \<mapsto> idx)) (Suc idx) cs h = Some j" by simp
  from Cons.IH [OF this] show ?case
    by (auto split: if_splits simp: nth_Cons')
qed

lemma commitIndexMap_None:
  "commitIndexMap commits h = None \<longleftrightarrow> h \<notin> hash ` set commits"
  by (simp add: commitIndexMap_def indexLoop_None)

lemma commitIndexMap_Some:
  "commitIndexMap commits h = Some j \<Longrightarrow> j < length commits \<and> hash (commits ! j) = h"
  using indexLoop_Some [of Map.empty 0 commits h j] by (simp add: commitIndexMap_def)

lemma parentsLoop_concat:
  "inRange commits m \<Longrightarrow>
   parentsLoop commits m commit index paths ps =
     Inr (paths @ concat (map (\<lambda>p. case m p of None \<Rightarrow> []
            | Some j \<Rightarrow> [connection commit index p (commits ! j) j]) ps))"
proof (induction ps arbitrary: paths)
  case Nil
  then show ?case by simp
next
  case (Cons p ps)
  then show ?case
    by (cases "m p") (auto simp: inRange_def)
qed

lemma commitsLoop_concat:
  assumes r: "inRange commits m"
  shows "index \<le> length commits \<Longrightarrow>
   commitsLoop commits m index paths (drop index commits) =
     Inr (paths @ concat (map (\<lambda>i. concat (map (\<lambda>p. case m p of None \<Rightarrow> []
            | Some j \<Rightarrow> [connection (commits ! i) i p (commits ! j) j]) (parents (commits ! i))))
          [index..<length commits]))"
proof (induction "length commits - index" arbitrary: index paths)
  case 0
  then show ?case by simp
next
  case (Suc d)
  then have lt: "index < length commits" by simp
  then have dr: "drop index commits = commits ! index # drop (Suc index) commits"
    by (simp add: Cons_nth_drop_Suc)
  have ih: "\<And>ps. commitsLoop commits m (Suc index) ps (drop (Suc index) commits) =
     Inr (ps @ concat (map (\<lambda>i. concat (map (\<lambda>p. case m p of None \<Rightarrow> []
            | Some j \<Rightarrow> [connection (commits ! i) i p (commits ! j) j]) (parents (commits ! i))))
          [Suc index..<length commits]))"
    using Suc.hyps(1) [of "Suc index"] Suc.hyps(2) lt by simp
  show ?case
    using lt by (simp add: dr parentsLoop_concat [OF r] ih upt_conv_Cons)
qed

lemma concat_map_concat:
  "concat (map f (concat xss)) = concat (map (\<lambda>xs. concat (map f xs)) xss)"
  by (induction xss) simp_all

lemma renderConnections_concat:
  "renderConnections commits =
     Inr (concat (map (\<lambda>(index, parentHash). connectorsOfPair commits index parentHash)
                    (commitParentPairs commits)))"
proof -
  have r: "inRange commits (commitIndexMap commits)"
    using commitIndexMap_Some by (auto simp: inRange_def)
  have "concat (map (\<lambda>(index, parentHash). connectorsOfPair commits index parentHash)
                    (commitParentPairs commits)) =
        concat (map (\<lambda>i. concat (map (\<lambda>p. connectorsOfPair commits i p) (parents (commits ! i))))
          [0..<length commits])"
    by (simp add: commitParentPairs_def concat_map_concat comp_def)
  then show ?thesis
    using commitsLoop_concat [OF r, of 0 "[]"]
    by (simp add: renderConnections_def connectorsOfPair_def)
qed

lemma connection_line:
  "column c = column pc \<Longrightarrow>
   connection c i h pc j =
     Line (hash c @ ''-'' @ h) (6 + 16 * of_int (column c)) (18 + 24 * of_nat i)
          (6 + 16 * of_int (column c)) (18 + 24 * of_nat j) (strokeColor (color c))"
  by (simp add: connection_def Let_def GRAPH_PADDING_def COLUMN_WIDTH_def ROW_HEIGHT_def)

lemma connection_path:
  "column c \<noteq> column pc \<Longrightarrow>
   connection c i h pc j =
     Path (hash c @ ''-'' @ h)
       (6 + 16 * of_int (column c), 18 + 24 * of_nat i)
       (6 + 16 * of_int (column c), (18 + 24 * of_nat i) + 3 / 10 * ((18 + 24 * of_nat j) - (18 + 24 * of_nat i)))
       (6 + 16 * of_int (column pc), (18 + 24 * of_nat i) + 3 / 10 * ((18 + 24 * of_nat j) - (18 + 24 * of_nat i)))
       (6 + 16 * of_int (column pc), 18 + 24 * of_nat j) (strokeColor (color c))"
  by (simp add: connection_def Let_def GRAPH_PADDING_def COLUMN_WIDTH_def ROW_HEIGHT_def)

lemma connectorsOfPair_absent:
  "parentHash \<notin> hash ` set commits \<Longrightarrow> connectorsOfPair commits index parentHash = []"
  using commitIndexMap_None [of commits parentHash] by (simp add: connectorsOfPair_def)

lemma connectorsOfPair_present:
  assumes "parentHash \<in> hash ` set commits"
  shows "\<exists>parentIndex<length commits. hash (commits ! parentIndex) = parentHash \<and>
           connectorsOfPair commits index parentHash =
             [connection (commits ! index) index parentHash (commits ! parentIndex) parentIndex]"
proof -
  from assms obtain j where j: "commitIndexMap commits parentHash = Some j"
    using commitIndexMap_None [of commits parentHash] by auto
  with commitIndexMap_Some [OF j] show ?thesis
    by (auto simp: connectorsOfPair_def)
qed

text \<open>
  C4.  \<open>renderConnections\<close> raises no error, and its connectors are those of the (commit,
  parent) pairs, in order, where a pair is a row and one entry of that row's \<open>parents\<close>.  A
  pair whose parent hash is the hash of no commit of the list gives no connector.  A pair
  whose parent hash is in the list gives exactly one connector, to a row with that hash
  (whether that row is later or not): a line from \<open>(x1, y1)\<close> to \<open>(x1, y2)\<close>, which is
  vertical, when the two commits have the same column, and otherwise a curve whose two
  control points have the ordinate \<open>y1 + 3/10 * (y2 - y1)\<close>.
\<close>

theorem renderConnections_pairs:
  "renderConnections commits =
     Inr (concat (map (\<lambda>(index, parentHash). connectorsOfPair commits index parentHash)
                    (commitParentPairs commits)))
   \<and> (parentHash \<notin> hash ` set commits \<longrightarrow> connectorsOfPair commits index parentHash = [])
   \<and> (parentHash \<in> hash ` set commits \<longrightarrow>
        (\<exists>parentIndex<length commits. hash (commits ! parentIndex) = parentHash \<and>
           connectorsOfPair commits index parentHash =
             [connection (commits ! index) index parentHash (commits ! parentIndex) parentIndex]))
   \<and> (column c = column pc \<longrightarrow>
        connection c i h pc j =
          Line (hash c @ ''-'' @ h) (6 + 16 * of_int (column c)) (18 + 24 * of_nat i)
               (6 + 16 * of_int (column c)) (18 + 24 * of_nat j) (strokeColor (color c)))
   \<and> (column c \<noteq> column pc \<longrightarrow>
        connection c i h pc j =
          Path (hash c @ ''-'' @ h)
            (6 + 16 * of_int (column c), 18 + 24 * of_nat i)
            (6 + 16 * of_int (column c),
               (18 + 24 * of_nat i) + 3 / 10 * ((18 + 24 * of_nat j) - (18 + 24 * of_nat i)))
            (6 + 16 * of_int (column pc),
               (18 + 24 * of_nat i) + 3 / 10 * ((18 + 24 * of_nat j) - (18 + 24 * of_nat i)))
            (6 + 16 * of_int (column pc), 18 + 24 * of_nat j) (strokeColor (color c)))"
  by (intro conjI impI renderConnections_concat connectorsOfPair_absent
      connectorsOfPair_present connection_line connection_path)

lemma exampleCommit_fields:
  "hash (exampleCommit h ps col) = h" "parents (exampleCommit h ps col) = ps"
  "column (exampleCommit h ps col) = col" "color (exampleCommit h ps col) = col"
  by (simp_all add: exampleCommit_def)

lemma ex_index:
  "commitIndexMap [exampleCommit ''c3'' [''c2'', ''zz''] 0, exampleCommit ''c2'' [''c1'', ''c0''] 0,
                     exampleCommit ''c1'' [] 0, exampleCommit ''c0'' [] 1] =
    [''c3'' \<mapsto> 0, ''c2'' \<mapsto> 1, ''c1'' \<mapsto> 2, ''c0'' \<mapsto> 3]"
  by (simp add: commitIndexMap_def exampleCommit_def numeral_2_eq_2 numeral_3_eq_3)

theorem renderConnections_pairs_witness:
  "renderConnections
     [exampleCommit ''c3'' [''c2'', ''zz''] 0, exampleCommit ''c2'' [''c1'', ''c0''] 0,
      exampleCommit ''c1'' [] 0, exampleCommit ''c0'' [] 1] =
   Inr [Line ''c3-c2'' 6 18 6 42 (Some ''#3b82f6''),
        Line ''c2-c1'' 6 42 6 66 (Some ''#3b82f6''),
        Path ''c2-c0'' (6, 42) (6, 56.4) (22, 56.4) (22, 90) (Some ''#3b82f6'')]"
proof -
  let ?cs = "[exampleCommit ''c3'' [''c2'', ''zz''] 0, exampleCommit ''c2'' [''c1'', ''c0''] 0,
      exampleCommit ''c1'' [] 0, exampleCommit ''c0'' [] 1]"
  have p: "commitParentPairs ?cs = [(0, ''c2''), (0, ''zz''), (Suc 0, ''c1''), (Suc 0, ''c0'')]"
    by (simp add: commitParentPairs_def exampleCommit_fields upt_rec)
  have a: "connectorsOfPair ?cs 0 ''zz'' = []"
    using renderConnections_pairs [of ?cs "''zz''" 0, THEN conjunct2, THEN conjunct1]
    by (simp add: exampleCommit_fields)
  have s: "strokeColor 0 = Some ''#3b82f6''"
    by (simp add: strokeColor_def COLORS_def)
  have b: "connectorsOfPair ?cs 0 ''c2'' = [Line ''c3-c2'' 6 18 6 42 (Some ''#3b82f6'')]"
    by (simp add: connectorsOfPair_def ex_index connection_line exampleCommit_fields s)
  have c: "connectorsOfPair ?cs (Suc 0) ''c1'' = [Line ''c2-c1'' 6 42 6 66 (Some ''#3b82f6'')]"
    by (simp add: connectorsOfPair_def ex_index connection_line exampleCommit_fields s)
  have d: "connectorsOfPair ?cs (Suc 0) ''c0'' =
             [Path ''c2-c0'' (6, 42) (6, 56.4) (22, 56.4) (22, 90) (Some ''#3b82f6'')]"
    by (simp add: connectorsOfPair_def ex_index connection_path exampleCommit_fields s)
  show ?thesis
    using renderConnections_pairs [of ?cs, THEN conjunct1] by (simp add: p a b c d)
qed

section \<open>Decimal strings, the hunk pattern and the line numbers\<close>

lemma String_nonempty: "String n \<noteq> []"
  by (subst String.simps) simp

lemma digit_nth: "k < 10 \<Longrightarrow> digit (''0123456789'' ! k)"
  unfolding digit_def by (rule nth_mem) simp

lemma String_digits: "\<forall>c\<in>set (String n). digit c"
proof (induction n rule: String.induct)
  case (1 n)
  show ?case
  proof (cases "n < 10")
    case True
    then show ?thesis
      by (subst String.simps) (simp add: digit_nth)
  next
    case False
    then show ?thesis
      using 1 by (subst String.simps) (simp add: digit_nth)
  qed
qed

lemma digitValue_nth: "k < 10 \<Longrightarrow> digitValue (''0123456789'' ! k) = k"
proof -
  assume "k < 10"
  then have "k \<in> {0, 1, 2, 3, 4, 5, 6, 7, 8, 9}" by auto
  then show ?thesis
    by (auto simp: digitValue_def)
qed

lemma parseInt_snoc: "parseInt (ds @ [c]) = 10 * parseInt ds + digitValue c"
  by (simp add: parseInt_def)

lemma parseInt_String: "parseInt (String n) = n"
proof (induction n rule: String.induct)
  case (1 n)
  show ?case
  proof (cases "n < 10")
    case True
    then show ?thesis
      by (subst String.simps) (simp add: parseInt_def digitValue_nth)
  next
    case False
    then have "parseInt (String n) = 10 * parseInt (String (n div 10)) + digitValue (''0123456789'' ! (n mod 10))"
      by (subst String.simps) (simp add: parseInt_snoc)
    with False 1 show ?thesis
      by (simp add: digitValue_nth)
  qed
qed

lemma star_stop:
  assumes g: "\<forall>c\<in>set g. P c" and k: "k r = Some v" and stop: "r = [] \<or> \<not> P (hd r)"
  shows "star P k (g @ r) = Some (g, v)"
proof -
  have "\<forall>w r'. w \<noteq> [] \<and> r = w @ r' \<and> (\<forall>c\<in>set w. P c) \<longrightarrow> k r' = None"
  proof (intro allI impI)
    fix w r' assume h: "w \<noteq> [] \<and> r = w @ r' \<and> (\<forall>c\<in>set w. P c)"
    then have "r \<noteq> []" "P (hd r)" by (cases w; simp)+
    with stop show "k r' = None" by simp
  qed
  with star_greedy [of g P k r v] g k show ?thesis by simp
qed

lemma plus_stop:
  assumes g: "\<forall>c\<in>set g. P c" and ne: "g \<noteq> []" and k: "k r = Some v"
    and stop: "r = [] \<or> \<not> P (hd r)"
  shows "plus P k (g @ r) = Some (g, v)"
proof -
  from ne obtain c cs where g': "g = c # cs" by (cases g) auto
  with g have "P c" "\<forall>c\<in>set cs. P c" by auto
  then show ?thesis
    using star_stop [of cs P k r v] k stop by (simp add: g')
qed

lemma optional_count:
  assumes k: "k r = Some v" and stop: "r = [] \<or> \<not> digit (hd r)"
  shows "opt (lit '','' \<circ> nogroup (plus digit)) k ('','' @ String b @ r) = Some v"
proof -
  have "plus digit k (String b @ r) = Some (String b, v)"
    using plus_stop [of "String b" digit k r v] String_digits String_nonempty k stop by simp
  then have "(lit '','' \<circ> nogroup (plus digit)) k ('','' @ String b @ r) = Some v"
    by (simp add: nogroup_def)
  then show ?thesis by (simp add: opt_def)
qed

lemma hunk_standard:
  "matchHunk (''@@ -'' @ String a @ '','' @ String b @ '' +'' @ String c @ '','' @ String d @ '' @@'' @ rest)
     = Some (String a, String c)"
proof -
  define k6 :: "string \<Rightarrow> unit option" where "k6 = lit '' @@'' matched"
  define k5 where "k5 = opt (lit '','' \<circ> nogroup (plus digit)) k6"
  define k4 where "k4 = plus digit k5"
  define k3 where "k3 = lit '' +'' k4"
  define k2 where "k2 = opt (lit '','' \<circ> nogroup (plus digit)) k3"
  define k1 where "k1 = plus digit k2"
  have nd: "\<not> digit CHR '' ''" "\<not> digit CHR '',''"
    by (simp_all add: digit_def)
  have e6: "k6 ('' @@'' @ rest) = Some ()"
    unfolding k6_def by (simp add: matched_def)
  have e5: "k5 ('','' @ String d @ '' @@'' @ rest) = Some ()"
    unfolding k5_def using optional_count [of k6 "'' @@'' @ rest" "()" d] e6 nd by simp
  have e4: "k4 (String c @ '','' @ String d @ '' @@'' @ rest) = Some (String c, ())"
    unfolding k4_def
    using plus_stop [of "String c" digit k5 "'','' @ String d @ '' @@'' @ rest" "()"]
      String_digits String_nonempty e5 nd by simp
  have e3: "k3 ('' +'' @ String c @ '','' @ String d @ '' @@'' @ rest) = Some (String c, ())"
    unfolding k3_def using e4 by simp
  have e2: "k2 ('','' @ String b @ '' +'' @ String c @ '','' @ String d @ '' @@'' @ rest) = Some (String c, ())"
    unfolding k2_def
    using optional_count [of k3 "'' +'' @ String c @ '','' @ String d @ '' @@'' @ rest" "(String c, ())" b]
      e3 nd by simp
  have e1: "k1 (String a @ '','' @ String b @ '' +'' @ String c @ '','' @ String d @ '' @@'' @ rest)
              = Some (String a, String c, ())"
    unfolding k1_def
    using plus_stop [of "String a" digit k2
        "'','' @ String b @ '' +'' @ String c @ '','' @ String d @ '' @@'' @ rest" "(String c, ())"]
      String_digits String_nonempty e2 nd by simp
  have hp: "hunkPattern = lit ''@@ -'' k1"
    by (simp add: hunkPattern_def k1_def k2_def k3_def k4_def k5_def k6_def)
  have "hunkPattern (''@@ -'' @ String a @ '','' @ String b @ '' +'' @ String c @ '','' @ String d @ '' @@'' @ rest)
               = Some (String a, String c, ())"
    by (simp only: hp lit_append e1)
  then have "search hunkPattern (''@@ -'' @ String a @ '','' @ String b @ '' +'' @ String c @ '','' @ String d @ '' @@'' @ rest)
               = Some (String a, String c, ())"
    by (rule search_first)
  then show ?thesis
    unfolding matchHunk_def by (simp del: search.simps)
qed

lemma renderLine_hunk_match:
  "prefix ''@@'' line \<Longrightarrow> matchHunk line = Some (g1, g2) \<Longrightarrow>
   renderLine (oldLine, newLine) line = (HunkRow line, (parseInt g1, parseInt g2))"
  by (simp add: renderLine_def startsWith_prefix)

lemma renderLine_hunk_nomatch:
  "prefix ''@@'' line \<Longrightarrow> matchHunk line = None \<Longrightarrow>
   renderLine (oldLine, newLine) line = (HunkRow line, (oldLine, newLine))"
  by (simp add: renderLine_def startsWith_prefix)

lemma renderLine_hunk_standard:
  "renderLine (oldLine, newLine)
     (''@@ -'' @ String a @ '','' @ String b @ '' +'' @ String c @ '','' @ String d @ '' @@'' @ rest)
   = (HunkRow (''@@ -'' @ String a @ '','' @ String b @ '' +'' @ String c @ '','' @ String d @ '' @@'' @ rest),
      (a, c))"
proof -
  have p: "prefix ''@@'' (''@@ -'' @ String a @ '','' @ String b @ '' +'' @ String c @ '','' @ String d @ '' @@'' @ rest)"
    by simp
  show ?thesis
    using renderLine_hunk_match [OF p hunk_standard, of oldLine newLine]
    by (simp only: parseInt_String)
qed

lemma renderLine_added:
  "contentLine line \<Longrightarrow> prefix ''+'' line \<Longrightarrow>
   renderLine (oldLine, newLine) line =
     (ContentRow ''flex bg-green-500/10 text-green-600'' [] (String newLine) line,
      (oldLine, newLine + 1))"
  by (simp add: renderLine_def startsWith_prefix contentLine_def)

lemma renderLine_removed:
  "contentLine line \<Longrightarrow> prefix ''-'' line \<Longrightarrow>
   renderLine (oldLine, newLine) line =
     (ContentRow ''flex bg-red-500/10 text-red-600'' (String oldLine) [] line,
      (oldLine + 1, newLine))"
  by (cases line) (auto simp add: renderLine_def startsWith_prefix contentLine_def)

lemma renderLine_context:
  "contentLine line \<Longrightarrow> \<not> prefix ''+'' line \<Longrightarrow> \<not> prefix ''-'' line \<Longrightarrow>
   renderLine (oldLine, newLine) line =
     (ContentRow ''flex whitespace-pre'' (String oldLine) (String newLine) line,
      (oldLine + 1, newLine + 1))"
  by (simp add: renderLine_def startsWith_prefix contentLine_def)

lemma mapLines_append:
  "mapLines st (xs @ ys) = mapLines st xs @ mapLines (countersAfter st xs) ys"
  by (induction xs arbitrary: st) (simp_all split: prod.splits)

lemma length_mapLines: "length (mapLines st xs) = length xs"
  by (induction xs arbitrary: st) (simp_all split: prod.splits)

lemma renderLine_no_hunk:
  "\<not> prefix ''@@'' l \<Longrightarrow>
   renderLine (oldLine, newLine) l =
     (numberedRow (oldLine, newLine) l, (oldLine + oldAdvance [l], newLine + newAdvance [l]))"
  by (cases l)
    (auto simp: renderLine_def numberedRow_def oldAdvance_def newAdvance_def contentLine_def
      startsWith_prefix)

lemma map_upt_Suc: "map f [0..<Suc n] = f 0 # map (\<lambda>k. f (Suc k)) [0..<n]"
proof -
  have "[0..<Suc n] = 0 # map Suc [0..<n]"
    by (simp add: upt_conv_Cons map_Suc_upt del: upt_Suc)
  then show ?thesis by (simp add: comp_def del: upt_Suc)
qed

lemma mapLines_body:
  "\<forall>l\<in>set body. \<not> prefix ''@@'' l \<Longrightarrow>
   mapLines (oldLine, newLine) body =
     map (\<lambda>k. numberedRow (oldLine + oldAdvance (take k body), newLine + newAdvance (take k body))
                (body ! k)) [0..<length body]"
proof (induction body arbitrary: oldLine newLine)
  case Nil
  then show ?case by simp
next
  case (Cons l ls)
  then have l: "\<not> prefix ''@@'' l" and ls: "\<forall>l\<in>set ls. \<not> prefix ''@@'' l" by simp_all
  have "mapLines (oldLine, newLine) (l # ls) =
          numberedRow (oldLine, newLine) l
            # mapLines (oldLine + oldAdvance [l], newLine + newAdvance [l]) ls"
    by (simp add: renderLine_no_hunk [OF l])
  also have "mapLines (oldLine + oldAdvance [l], newLine + newAdvance [l]) ls =
      map (\<lambda>k. numberedRow (oldLine + oldAdvance [l] + oldAdvance (take k ls),
                             newLine + newAdvance [l] + newAdvance (take k ls)) (ls ! k))
        [0..<length ls]"
    by (rule Cons.IH [OF ls])
  also have "numberedRow (oldLine, newLine) l # \<dots> =
      map (\<lambda>k. numberedRow (oldLine + oldAdvance (take k (l # ls)),
                             newLine + newAdvance (take k (l # ls))) ((l # ls) ! k))
        [0..<length (l # ls)]"
    by (auto simp add: map_upt_Suc oldAdvance_def newAdvance_def simp del: upt_Suc)
  finally show ?case .
qed

lemma mapLines_after_hunk:
  assumes h: "prefix ''@@'' h" and m: "matchHunk h = Some (g1, g2)"
    and body: "\<forall>l\<in>set body. \<not> prefix ''@@'' l"
  shows "take (Suc (length pre + length body)) (mapLines st (pre @ h # body @ rest)) =
     mapLines st pre @ HunkRow h
       # map (\<lambda>k. numberedRow (parseInt g1 + oldAdvance (take k body),
                               parseInt g2 + newAdvance (take k body)) (body ! k))
           [0..<length body]"
proof -
  obtain o1 n1 where c: "countersAfter st pre = (o1, n1)" by (cases "countersAfter st pre")
  have r: "renderLine (o1, n1) h = (HunkRow h, (parseInt g1, parseInt g2))"
    using h m by (rule renderLine_hunk_match)
  have "mapLines st (pre @ h # body @ rest) =
      mapLines st pre @ HunkRow h # mapLines (parseInt g1, parseInt g2) (body @ rest)"
    by (simp add: mapLines_append c r)
  also have "\<dots> = (mapLines st pre @ HunkRow h # mapLines (parseInt g1, parseInt g2) body)
                 @ mapLines (countersAfter (parseInt g1, parseInt g2) body) rest"
    by (simp add: mapLines_append)
  finally have "take (Suc (length pre + length body)) (mapLines st (pre @ h # body @ rest)) =
      mapLines st pre @ HunkRow h # mapLines (parseInt g1, parseInt g2) body"
    by (simp add: length_mapLines)
  then show ?thesis
    by (simp only: mapLines_body [OF body])
qed

lemma mapLines_failed_hunk:
  assumes h: "prefix ''@@'' h" and m: "matchHunk h = None"
  shows "mapLines st (pre @ h # rest) =
     take (length pre) (mapLines st (pre @ rest)) @ HunkRow h
       # drop (length pre) (mapLines st (pre @ rest))"
proof -
  obtain o1 n1 where c: "countersAfter st pre = (o1, n1)" by (cases "countersAfter st pre")
  have r: "renderLine (o1, n1) h = (HunkRow h, (o1, n1))"
    using h m by (rule renderLine_hunk_nomatch)
  have a: "mapLines st (pre @ h # rest) = mapLines st pre @ HunkRow h # mapLines (o1, n1) rest"
    by (simp add: mapLines_append c r)
  have b: "mapLines st (pre @ rest) = mapLines st pre @ mapLines (o1, n1) rest"
    by (simp add: mapLines_append c)
  show ?thesis
    by (simp add: a b length_mapLines)
qed

text \<open>
  C6.  The rows of an expanded file are those of its first 100 lines, numbered by two
  counters that start at 0 and are carried from each line to the next.  When a line begins
  with \<open>@@\<close> and matches the hunk pattern, the lines after it, up to the next line that
  begins with \<open>@@\<close>, are numbered from the numbers of the groups 1 and 2: the line
  \<open>@@ -a,b +c,d @@\<close>, with whatever follows it on the line, sets the counters to \<open>(a, c)\<close>,
  and line \<open>k\<close> after it has the old-line number \<open>a\<close> plus the number of content lines
  among the \<open>k\<close> lines before it that are not added, and the new-line number \<open>c\<close> plus the
  number of those that are not removed.  An added line shows and advances the new-line
  counter only, a removed line the old-line counter only, every other content line both.
  A line that begins with \<open>@@\<close> and does not match gives the hunk header row, which shows
  no number, and the other rows are what they are without that line: no number is derived
  from it.
\<close>

theorem renderFileLines_numbering:
  "(take 100 (lines file) = pre @ h # body @ rest \<and> prefix ''@@'' h \<and> matchHunk h = Some (g1, g2)
      \<and> (\<forall>l\<in>set body. \<not> prefix ''@@'' l) \<longrightarrow>
      take (Suc (length pre + length body)) (renderFileLines file) =
        mapLines (0, 0) pre @ HunkRow h
          # map (\<lambda>k. numberedRow (parseInt g1 + oldAdvance (take k body),
                                  parseInt g2 + newAdvance (take k body)) (body ! k))
              [0..<length body])
   \<and> (take 100 (lines file) =
          pre @ (''@@ -'' @ String a @ '','' @ String b @ '' +'' @ String c @ '','' @ String d
                   @ '' @@'' @ trail) # body @ rest
        \<and> (\<forall>l\<in>set body. \<not> prefix ''@@'' l) \<longrightarrow>
        take (Suc (length pre + length body)) (renderFileLines file) =
          mapLines (0, 0) pre
            @ HunkRow (''@@ -'' @ String a @ '','' @ String b @ '' +'' @ String c @ '','' @ String d
                         @ '' @@'' @ trail)
            # map (\<lambda>k. numberedRow (a + oldAdvance (take k body), c + newAdvance (take k body))
                         (body ! k))
                [0..<length body])
   \<and> (take 100 (lines file) = pre @ h # rest \<and> prefix ''@@'' h \<and> matchHunk h = None \<longrightarrow>
        renderFileLines file =
          take (length pre) (mapLines (0, 0) (pre @ rest)) @ HunkRow h
            # drop (length pre) (mapLines (0, 0) (pre @ rest)))
   \<and> (prefix ''@@'' line \<and> matchHunk line = Some (g1, g2) \<longrightarrow>
        renderLine (oldLine, newLine) line = (HunkRow line, (parseInt g1, parseInt g2)))
   \<and> (prefix ''@@'' line \<and> matchHunk line = None \<longrightarrow>
        renderLine (oldLine, newLine) line = (HunkRow line, (oldLine, newLine)))
   \<and> (contentLine line \<and> prefix ''+'' line \<longrightarrow>
        renderLine (oldLine, newLine) line =
          (ContentRow ''flex bg-green-500/10 text-green-600'' [] (String newLine) line,
           (oldLine, newLine + 1)))
   \<and> (contentLine line \<and> prefix ''-'' line \<longrightarrow>
        renderLine (oldLine, newLine) line =
          (ContentRow ''flex bg-red-500/10 text-red-600'' (String oldLine) [] line,
           (oldLine + 1, newLine)))
   \<and> (contentLine line \<and> \<not> prefix ''+'' line \<and> \<not> prefix ''-'' line \<longrightarrow>
        renderLine (oldLine, newLine) line =
          (ContentRow ''flex whitespace-pre'' (String oldLine) (String newLine) line,
           (oldLine + 1, newLine + 1)))"
proof (intro conjI impI)
  assume a: "take 100 (lines file) = pre @ h # body @ rest \<and> prefix ''@@'' h
      \<and> matchHunk h = Some (g1, g2) \<and> (\<forall>l\<in>set body. \<not> prefix ''@@'' l)"
  then have "prefix ''@@'' h" "matchHunk h = Some (g1, g2)" "\<forall>l\<in>set body. \<not> prefix ''@@'' l"
    by simp_all
  from mapLines_after_hunk [OF this, of pre "(0, 0)" rest] a
  show "take (Suc (length pre + length body)) (renderFileLines file) =
        mapLines (0, 0) pre @ HunkRow h
          # map (\<lambda>k. numberedRow (parseInt g1 + oldAdvance (take k body),
                                  parseInt g2 + newAdvance (take k body)) (body ! k))
              [0..<length body]"
    by (simp only: renderFileLines_def)
next
  let ?H = "''@@ -'' @ String a @ '','' @ String b @ '' +'' @ String c @ '','' @ String d @ '' @@'' @ trail"
  assume a: "take 100 (lines file) = pre @ ?H # body @ rest \<and> (\<forall>l\<in>set body. \<not> prefix ''@@'' l)"
  have p: "prefix ''@@'' ?H" by simp
  have m: "matchHunk ?H = Some (String a, String c)" by (rule hunk_standard)
  from a have b: "\<forall>l\<in>set body. \<not> prefix ''@@'' l" by simp
  from mapLines_after_hunk [OF p m b, of pre "(0, 0)" rest] a
  show "take (Suc (length pre + length body)) (renderFileLines file) =
          mapLines (0, 0) pre @ HunkRow ?H
            # map (\<lambda>k. numberedRow (a + oldAdvance (take k body), c + newAdvance (take k body))
                         (body ! k))
                [0..<length body]"
    by (simp only: renderFileLines_def parseInt_String)
next
  assume a: "take 100 (lines file) = pre @ h # rest \<and> prefix ''@@'' h \<and> matchHunk h = None"
  then have "prefix ''@@'' h" "matchHunk h = None" by simp_all
  from mapLines_failed_hunk [OF this, of "(0, 0)" pre rest] a
  show "renderFileLines file =
          take (length pre) (mapLines (0, 0) (pre @ rest)) @ HunkRow h
            # drop (length pre) (mapLines (0, 0) (pre @ rest))"
    by (simp only: renderFileLines_def)
next
  assume "prefix ''@@'' line \<and> matchHunk line = Some (g1, g2)"
  then show "renderLine (oldLine, newLine) line = (HunkRow line, (parseInt g1, parseInt g2))"
    by (elim conjE) (rule renderLine_hunk_match)
next
  assume "prefix ''@@'' line \<and> matchHunk line = None"
  then show "renderLine (oldLine, newLine) line = (HunkRow line, (oldLine, newLine))"
    by (elim conjE) (rule renderLine_hunk_nomatch)
next
  assume "contentLine line \<and> prefix ''+'' line"
  then show "renderLine (oldLine, newLine) line =
          (ContentRow ''flex bg-green-500/10 text-green-600'' [] (String newLine) line,
           (oldLine, newLine + 1))"
    by (elim conjE) (rule renderLine_added)
next
  assume "contentLine line \<and> prefix ''-'' line"
  then show "renderLine (oldLine, newLine) line =
          (ContentRow ''flex bg-red-500/10 text-red-600'' (String oldLine) [] line,
           (oldLine + 1, newLine))"
    by (elim conjE) (rule renderLine_removed)
next
  assume "contentLine line \<and> \<not> prefix ''+'' line \<and> \<not> prefix ''-'' line"
  then show "renderLine (oldLine, newLine) line =
          (ContentRow ''flex whitespace-pre'' (String oldLine) (String newLine) line,
           (oldLine + 1, newLine + 1))"
    by (elim conjE) (rule renderLine_context)
qed

theorem renderFileLines_numbering_witness:
  "renderFileLines exampleFile =
     [MetaRow ''index 1..2'', MetaRow ''--- a/x'', MetaRow ''+++ b/x'',
      HunkRow ''@@ -12,3 +15,4 @@ int f()'',
      ContentRow ''flex whitespace-pre'' ''12'' ''15'' '' a'',
      ContentRow ''flex bg-red-500/10 text-red-600'' ''13'' [] ''-b'',
      ContentRow ''flex bg-green-500/10 text-green-600'' [] ''16'' ''+c'',
      MetaRow ''--- x'',
      ContentRow ''flex bg-green-500/10 text-green-600'' [] ''17'' ''+d'',
      HunkRow ''@@ bad @@'',
      ContentRow ''flex whitespace-pre'' ''14'' ''18'' '' e'']
   \<and> take 9 (renderFileLines exampleFile) =
     [MetaRow ''index 1..2'', MetaRow ''--- a/x'', MetaRow ''+++ b/x'',
      HunkRow ''@@ -12,3 +15,4 @@ int f()'',
      ContentRow ''flex whitespace-pre'' ''12'' ''15'' '' a'',
      ContentRow ''flex bg-red-500/10 text-red-600'' ''13'' [] ''-b'',
      ContentRow ''flex bg-green-500/10 text-green-600'' [] ''16'' ''+c'',
      MetaRow ''--- x'',
      ContentRow ''flex bg-green-500/10 text-green-600'' [] ''17'' ''+d'']"
proof -
  let ?pre = "[''index 1..2'', ''--- a/x'', ''+++ b/x'']"
  let ?body = "['' a'', ''-b'', ''+c'', ''--- x'', ''+d'']"
  let ?rest = "[''@@ bad @@'', '' e'']"
  have s: "String 12 = ''12''" "String 3 = ''3''" "String 15 = ''15''" "String 4 = ''4''"
    "String 13 = ''13''" "String 16 = ''16''" "String 17 = ''17''" "String 14 = ''14''"
    "String 18 = ''18''"
    by (simp_all add: String.simps)
  have l1: "take 100 (lines exampleFile) =
      ?pre @ (''@@ -'' @ String 12 @ '','' @ String 3 @ '' +'' @ String 15 @ '','' @ String 4
                @ '' @@'' @ '' int f()'') # ?body @ ?rest"
    by (simp add: exampleFile_def s)
  have b: "\<forall>l\<in>set ?body. \<not> prefix ''@@'' l" by simp
  have p: "mapLines (0, 0) ?pre =
      [MetaRow ''index 1..2'', MetaRow ''--- a/x'', MetaRow ''+++ b/x'']"
    by (simp add: renderLine_def)
  have n: "map (\<lambda>k. numberedRow (12 + oldAdvance (take k ?body), 15 + newAdvance (take k ?body))
                       (?body ! k)) [0..<length ?body] =
      [ContentRow ''flex whitespace-pre'' ''12'' ''15'' '' a'',
       ContentRow ''flex bg-red-500/10 text-red-600'' ''13'' [] ''-b'',
       ContentRow ''flex bg-green-500/10 text-green-600'' [] ''16'' ''+c'',
       MetaRow ''--- x'',
       ContentRow ''flex bg-green-500/10 text-green-600'' [] ''17'' ''+d'']"
    by (simp add: upt_rec numberedRow_def oldAdvance_def newAdvance_def contentLine_def s)
  have t9: "take 9 (renderFileLines exampleFile) =
     [MetaRow ''index 1..2'', MetaRow ''--- a/x'', MetaRow ''+++ b/x'',
      HunkRow ''@@ -12,3 +15,4 @@ int f()'',
      ContentRow ''flex whitespace-pre'' ''12'' ''15'' '' a'',
      ContentRow ''flex bg-red-500/10 text-red-600'' ''13'' [] ''-b'',
      ContentRow ''flex bg-green-500/10 text-green-600'' [] ''16'' ''+c'',
      MetaRow ''--- x'',
      ContentRow ''flex bg-green-500/10 text-green-600'' [] ''17'' ''+d'']"
  proof -
    have H: "''@@ -'' @ String 12 @ '','' @ String 3 @ '' +'' @ String 15 @ '','' @ String 4
                @ '' @@'' @ '' int f()'' = ''@@ -12,3 +15,4 @@ int f()''"
      by (simp add: s)
    have k: "Suc (length ?pre + length ?body) = 9" by simp
    have "take (Suc (length ?pre + length ?body)) (renderFileLines exampleFile) =
        mapLines (0, 0) ?pre
          @ HunkRow (''@@ -'' @ String 12 @ '','' @ String 3 @ '' +'' @ String 15 @ '','' @ String 4
                @ '' @@'' @ '' int f()'')
          # map (\<lambda>k. numberedRow (12 + oldAdvance (take k ?body), 15 + newAdvance (take k ?body))
                       (?body ! k)) [0..<length ?body]"
      by (rule renderFileLines_numbering [of exampleFile "?pre" _ "?body" "?rest" _ _ 12 3 15 4
            "'' int f()''", THEN conjunct2, THEN conjunct1, THEN mp, OF conjI [OF l1 b]])
    then show ?thesis
      unfolding p n H k by simp
  qed
  let ?pre2 = "[''index 1..2'', ''--- a/x'', ''+++ b/x'', ''@@ -12,3 +15,4 @@ int f()'', '' a'',
               ''-b'', ''+c'', ''--- x'', ''+d'']"
  have l2: "take 100 (lines exampleFile) = ?pre2 @ ''@@ bad @@'' # ['' e'']"
    by (simp add: exampleFile_def)
  have m: "matchHunk ''@@ bad @@'' = None"
    by (simp add: matchHunk_def hunkPattern_def opt_def nogroup_def digit_def matched_def)
  have m2: "matchHunk ''@@ -12,3 +15,4 @@ int f()'' = Some (''12'', ''15'')"
    by (simp add: matchHunk_def hunkPattern_def opt_def nogroup_def digit_def matched_def)
  have pi: "parseInt ''12'' = 12" "parseInt ''15'' = 15"
    by (simp_all add: parseInt_def digitValue_def)
  have w: "mapLines (0, 0) (?pre2 @ ['' e'']) =
     [MetaRow ''index 1..2'', MetaRow ''--- a/x'', MetaRow ''+++ b/x'',
      HunkRow ''@@ -12,3 +15,4 @@ int f()'',
      ContentRow ''flex whitespace-pre'' ''12'' ''15'' '' a'',
      ContentRow ''flex bg-red-500/10 text-red-600'' ''13'' [] ''-b'',
      ContentRow ''flex bg-green-500/10 text-green-600'' [] ''16'' ''+c'',
      MetaRow ''--- x'',
      ContentRow ''flex bg-green-500/10 text-green-600'' [] ''17'' ''+d'',
      ContentRow ''flex whitespace-pre'' ''14'' ''18'' '' e'']"
    by (simp add: renderLine_def m2 pi s)
  have full: "renderFileLines exampleFile =
     [MetaRow ''index 1..2'', MetaRow ''--- a/x'', MetaRow ''+++ b/x'',
      HunkRow ''@@ -12,3 +15,4 @@ int f()'',
      ContentRow ''flex whitespace-pre'' ''12'' ''15'' '' a'',
      ContentRow ''flex bg-red-500/10 text-red-600'' ''13'' [] ''-b'',
      ContentRow ''flex bg-green-500/10 text-green-600'' [] ''16'' ''+c'',
      MetaRow ''--- x'',
      ContentRow ''flex bg-green-500/10 text-green-600'' [] ''17'' ''+d'',
      HunkRow ''@@ bad @@'',
      ContentRow ''flex whitespace-pre'' ''14'' ''18'' '' e'']"
  proof -
    have "renderFileLines exampleFile =
        take (length ?pre2) (mapLines (0, 0) (?pre2 @ ['' e''])) @ HunkRow ''@@ bad @@''
          # drop (length ?pre2) (mapLines (0, 0) (?pre2 @ ['' e'']))"
      by (rule renderFileLines_numbering [of exampleFile "?pre2" "''@@ bad @@''" _ "['' e'']",
            THEN conjunct2, THEN conjunct2, THEN conjunct1, THEN mp,
            OF conjI [OF l2 conjI [OF _ m]]]) simp
    then show ?thesis
      unfolding w by simp
  qed
  show ?thesis using full t9 by simp
qed

section \<open>The columns of a linear history\<close>

lemma placeCommit_lane0:
  assumes "lanes b = [] \<or> lanes b = [None] \<or> (\<exists>colr. lanes b = [Some (hash' c, colr)])"
  shows "\<exists>colr b1. placeCommit b c = ((0, colr), b1) \<and> lanes b1 = [None]"
  using assms by (auto simp: placeCommit_def setLane_def)

lemma buildLoop_chain:
  "chain cs \<Longrightarrow>
   lanes b = [] \<or> lanes b = [None] \<or> (\<exists>colr. cs \<noteq> [] \<and> lanes b = [Some (hash' (hd cs), colr)]) \<Longrightarrow>
   \<forall>p\<in>set (buildLoop b r cs). column' p = 0"
proof (induction cs arbitrary: b r rule: chain.induct)
  case 1
  then show ?case by simp
next
  case (2 c)
  then have "lanes b = [] \<or> lanes b = [None] \<or> (\<exists>colr. lanes b = [Some (hash' c, colr)])"
    by auto
  from placeCommit_lane0 [OF this] obtain colr b1 where
    "placeCommit b c = ((0, colr), b1)" by blast
  then show ?case by simp
next
  case (3 c d cs)
  then have "lanes b = [] \<or> lanes b = [None] \<or> (\<exists>colr. lanes b = [Some (hash' c, colr)])"
    by auto
  from placeCommit_lane0 [OF this] obtain colr b1 where
    pc: "placeCommit b c = ((0, colr), b1)" and l1: "lanes b1 = [None]" by blast
  from 3(2) have ch: "chain (d # cs)" and par: "parents' c = [] \<or> parents' c = [hash' d]"
    by auto
  let ?b2 = "reserveParents 0 colr True b1 (parents' c)"
  have "lanes ?b2 = [None] \<or> lanes ?b2 = [Some (hash' d, colr)]"
    using par l1 by (auto simp: setLane_def)
  then have "lanes ?b2 = [] \<or> lanes ?b2 = [None]
              \<or> (\<exists>colr. d # cs \<noteq> [] \<and> lanes ?b2 = [Some (hash' (hd (d # cs)), colr)])"
    by auto
  from 3(1) [OF ch this] have "\<forall>p\<in>set (buildLoop ?b2 (Suc r) (d # cs)). column' p = 0" .
  then show ?case
    using pc by simp
qed

lemma build_chain: "chain cs \<Longrightarrow> \<forall>p\<in>set (build cs). column' p = 0"
  unfolding build_def by (rule buildLoop_chain) simp_all

text \<open>
  C8.  As stated, with a linear history being a list in which every commit has at most one
  parent, the claim fails on the builder of the specification: two commits \<open>a\<close> and \<open>b\<close>
  with the same single parent \<open>c\<close> have at most one parent each, and \<open>b\<close> gets column 1,
  because \<open>a\<close> has reserved column 0 for \<open>c\<close>.
\<close>

theorem build_one_parent_counterexample:
  "length (parents' \<lparr>hash' = ''a'', parents' = [''c''], refs = []\<rparr>) \<le> 1
   \<and> length (parents' \<lparr>hash' = ''b'', parents' = [''c''], refs = []\<rparr>) \<le> 1
   \<and> length (parents' \<lparr>hash' = ''c'', parents' = [], refs = []\<rparr>) \<le> 1
   \<and> map column' (build [\<lparr>hash' = ''a'', parents' = [''c''], refs = []\<rparr>,
                          \<lparr>hash' = ''b'', parents' = [''c''], refs = []\<rparr>,
                          \<lparr>hash' = ''c'', parents' = [], refs = []\<rparr>]) = [0, 1, 0]"
  by (simp add: build_def placeCommit_def setLane_def paletteSize_def)

text \<open>
  C8, amended.  For every commit list that is one line in row order, that is, every commit
  has no parent or exactly one and the parent of a commit not in the last row is the commit
  of the next row, the builder assigns column 0 to every commit.
\<close>

theorem build_chain_column_0:
  "chain commits \<longrightarrow> (\<forall>p\<in>set (build commits). column' p = 0)"
  using build_chain by blast

theorem build_chain_column_0_witness:
  "chain [\<lparr>hash' = ''c3'', parents' = [''c2''], refs = [''main'']\<rparr>,
          \<lparr>hash' = ''c2'', parents' = [''c1''], refs = []\<rparr>,
          \<lparr>hash' = ''c1'', parents' = [''c0''], refs = []\<rparr>]
   \<and> map column' (build [\<lparr>hash' = ''c3'', parents' = [''c2''], refs = [''main'']\<rparr>,
          \<lparr>hash' = ''c2'', parents' = [''c1''], refs = []\<rparr>,
          \<lparr>hash' = ''c1'', parents' = [''c0''], refs = []\<rparr>]) = [0, 0, 0]"
proof -
  let ?cs = "[\<lparr>hash' = ''c3'', parents' = [''c2''], refs = [''main'']\<rparr>,
          \<lparr>hash' = ''c2'', parents' = [''c1''], refs = []\<rparr>,
          \<lparr>hash' = ''c1'', parents' = [''c0''], refs = []\<rparr>]"
  have c: "chain ?cs" by simp
  have l: "length (build ?cs) = 3" by (simp add: build_def split: prod.splits)
  from build_chain_column_0 [of ?cs] c have a: "\<forall>p\<in>set (build ?cs). column' p = 0" by blast
  have "map column' (build ?cs) = replicate (length (build ?cs)) 0"
    using a by (simp add: map_replicate_const [symmetric] cong: map_cong)
  with c l show ?thesis by (simp add: numeral_3_eq_3)
qed

text \<open>
  The scenario of the specification's section 8: a merge \<open>c2\<close> of \<open>c1\<close> and \<open>c0\<close> under
  \<open>c3\<close> gives the columns 0, 0, 0 and 1.
\<close>

lemma build_scenario:
  "map column' (build [\<lparr>hash' = ''c3'', parents' = [''c2''], refs = []\<rparr>,
          \<lparr>hash' = ''c2'', parents' = [''c1'', ''c0''], refs = []\<rparr>,
          \<lparr>hash' = ''c1'', parents' = [], refs = []\<rparr>,
          \<lparr>hash' = ''c0'', parents' = [], refs = []\<rparr>]) = [0, 0, 0, 1]"
  by (simp add: build_def placeCommit_def setLane_def paletteSize_def)

section \<open>The handlers and \<open>fetchGraph\<close>\<close>

text \<open>
  The five handlers that may return before \<open>invoke\<close>: when they do call it and it succeeds,
  they call \<open>fetchGraph\<close>.
\<close>

lemma invoked_handlers_fetchGraph:
  "Invoke c a \<in> set (handleCreateBranch repoPath h prompted True)
     \<Longrightarrow> FetchGraph \<in> set (handleCreateBranch repoPath h prompted True)"
  "Invoke c a \<in> set (handleResetTo repoPath h mode confirmed True)
     \<Longrightarrow> FetchGraph \<in> set (handleResetTo repoPath h mode confirmed True)"
  "Invoke c a \<in> set (handleCreateTag repoPath h prompted True)
     \<Longrightarrow> FetchGraph \<in> set (handleCreateTag repoPath h prompted True)"
  "Invoke c a \<in> set (handleDeleteBranch repoPath branchName force confirmed True)
     \<Longrightarrow> FetchGraph \<in> set (handleDeleteBranch repoPath branchName force confirmed True)"
  "Invoke c a \<in> set (handleRenameBranch repoPath oldName prompted True)
     \<Longrightarrow> FetchGraph \<in> set (handleRenameBranch repoPath oldName prompted True)"
  by (auto simp: handleCreateBranch_def handleResetTo_def handleCreateTag_def
      handleDeleteBranch_def handleRenameBranch_def split: option.splits if_splits)

text \<open>
  C2.  The claim holds for eleven of the twelve handlers and fails for \<open>handleStashSave\<close>:
  after a successful \<open>stash_save\<close> it shows the toast and calls \<open>onRefresh?.()\<close>, and does
  not call \<open>fetchGraph\<close>, while \<open>handleStashPop\<close> and the other handlers do.  Where
  \<open>fetchGraph\<close> is called and the fetch succeeds, the fetched list replaces the commits whole.
\<close>

theorem handleStashSave_no_fetchGraph:
  "handleStashSave repoPath prompted True =
     [Invoke ''stash_save''
        [(''path'', Str repoPath),
         (''message'', (case prompted of None \<Rightarrow> Null | Some m \<Rightarrow> if m = [] then Null else Str m))],
      ToastSuccess, OnRefresh]
   \<and> FetchGraph \<notin> set (handleStashSave repoPath prompted True)
   \<and> FetchGraph \<in> set (handleStashPop repoPath True)
   \<and> FetchGraph \<in> set (handleCheckout repoPath h True)
   \<and> FetchGraph \<in> set (handleCherryPick repoPath h True)
   \<and> FetchGraph \<in> set (handleRevert repoPath h True)
   \<and> FetchGraph \<in> set (handleMergeBranch repoPath branchName True)
   \<and> FetchGraph \<in> set (handleRebase repoPath branchName True)
   \<and> commits' (fetchGraph (Inr data) st) = data"
  by (simp add: handleStashSave_def handleStashPop_def handleCheckout_def handleCherryPick_def
      handleRevert_def handleMergeBranch_def handleRebase_def fetchGraph_def)

section \<open>One fetch for each burst of notifications\<close>

lemma onGitChanged_pending:
  assumes "pending (host w) = [] \<or>
           (\<exists>i due. 0 < i \<and> pending (host w) = [(i, due)] \<and> debounceTimer w = Some i)"
  shows "pending (host (onGitChanged now w)) = [(nextHandle (host w), now + 300)]
         \<and> debounceTimer (onGitChanged now w) = Some (nextHandle (host w))
         \<and> nextHandle (host (onGitChanged now w)) = Suc (nextHandle (host w))
         \<and> fetched (onGitChanged now w) = fetched w"
  using assms
  by (auto simp: onGitChanged_def setTimeout_def clearTimeout_def Let_def split: option.splits)

lemma notifications_bursts:
  "sorted (t # ts) \<Longrightarrow> pending (host w) = [(i, t + 300)] \<Longrightarrow> debounceTimer w = Some i \<Longrightarrow>
   0 < i \<Longrightarrow> 0 < nextHandle (host w) \<Longrightarrow>
   fetched (notifications w ts) @ map snd (pending (host (notifications w ts)))
     = fetched w @ map (\<lambda>t. t + 300) (burstEnds (t # ts))"
proof (induction ts arbitrary: t w i)
  case Nil
  then show ?case by simp
next
  case (Cons u ts)
  let ?w1 = "runTimers u w"
  let ?w2 = "onGitChanged u ?w1"
  from Cons.prems have tu: "t \<le> u" and s: "sorted (u # ts)" by auto
  have n1: "nextHandle (host ?w1) = nextHandle (host w)"
    by (simp add: runTimers_def)
  show ?case
  proof (cases "u - t < 300")
    case True
    with tu have lt: "u < t + 300" by simp
    then have p1: "pending (host ?w1) = [(i, t + 300)]" and d1: "debounceTimer ?w1 = Some i"
      and f1: "fetched ?w1 = fetched w"
      using Cons.prems by (simp_all add: runTimers_def)
    then have c: "pending (host ?w1) = [] \<or>
        (\<exists>i due. 0 < i \<and> pending (host ?w1) = [(i, due)] \<and> debounceTimer ?w1 = Some i)"
      using Cons.prems(4) by simp
    from onGitChanged_pending [OF c, of u] f1 n1
    have p2: "pending (host ?w2) = [(nextHandle (host w), u + 300)]"
      and d2: "debounceTimer ?w2 = Some (nextHandle (host w))"
      and n2: "0 < nextHandle (host ?w2)"
      and f2: "fetched ?w2 = fetched w" by simp_all
    from Cons.IH [OF s p2 d2 Cons.prems(5) n2] f2 True show ?thesis by simp
  next
    case False
    with tu have ge: "t + 300 \<le> u" by simp
    then have p1: "pending (host ?w1) = []" and f1: "fetched ?w1 = fetched w @ [t + 300]"
      using Cons.prems by (simp_all add: runTimers_def)
    then have c: "pending (host ?w1) = [] \<or>
        (\<exists>i due. 0 < i \<and> pending (host ?w1) = [(i, due)] \<and> debounceTimer ?w1 = Some i)"
      by simp
    from onGitChanged_pending [OF c, of u] f1 n1
    have p2: "pending (host ?w2) = [(nextHandle (host w), u + 300)]"
      and d2: "debounceTimer ?w2 = Some (nextHandle (host w))"
      and n2: "0 < nextHandle (host ?w2)"
      and f2: "fetched ?w2 = fetched w @ [t + 300]" by simp_all
    from Cons.IH [OF s p2 d2 Cons.prems(5) n2] f2 False show ?thesis by simp
  qed
qed

lemma fetchTimes_bursts:
  assumes "sorted ts"
  shows "fetchTimes ts = map (\<lambda>t. t + 300) (burstEnds ts)"
proof (cases ts)
  case Nil
  then show ?thesis by (simp add: fetchTimes_def initialWorld_def)
next
  case (Cons t ts')
  let ?v = "runTimers t initialWorld"
  let ?w = "onGitChanged t ?v"
  have c: "pending (host ?v) = [] \<or>
      (\<exists>i due. 0 < i \<and> pending (host ?v) = [(i, due)] \<and> debounceTimer ?v = Some i)"
    by (simp add: runTimers_def initialWorld_def)
  have n0: "nextHandle (host ?v) = 1" and f0: "fetched ?v = []"
    by (simp_all add: runTimers_def initialWorld_def)
  from onGitChanged_pending [OF c, of t] n0 f0
  have p: "pending (host ?w) = [(1, t + 300)]"
    and d: "debounceTimer ?w = Some 1"
    and n: "0 < nextHandle (host ?w)"
    and f: "fetched ?w = []"
    by simp_all
  from notifications_bursts [OF _ p d _ n, of ts'] assms Cons f
  show ?thesis by (simp add: fetchTimes_def Let_def)
qed

lemma burstEnds_closeGaps: "ts \<noteq> [] \<Longrightarrow> closeGaps ts \<Longrightarrow> burstEnds ts = [last ts]"
  by (induction ts rule: burstEnds.induct) auto

lemma runTimers_single:
  assumes "pending (host w) = [] \<or>
           (\<exists>i due. 0 < i \<and> pending (host w) = [(i, due)] \<and> debounceTimer w = Some i)"
  shows "pending (host (runTimers now w)) = [] \<or>
           (\<exists>i due. 0 < i \<and> pending (host (runTimers now w)) = [(i, due)]
               \<and> debounceTimer (runTimers now w) = Some i)"
  using assms by (auto simp: runTimers_def)

lemma notifications_single:
  "0 < nextHandle (host w) \<Longrightarrow>
   pending (host w) = [] \<or>
     (\<exists>i due. 0 < i \<and> pending (host w) = [(i, due)] \<and> debounceTimer w = Some i) \<Longrightarrow>
   pending (host (notifications w ts)) = [] \<or>
     (\<exists>i due. 0 < i \<and> pending (host (notifications w ts)) = [(i, due)]
         \<and> debounceTimer (notifications w ts) = Some i)"
proof (induction ts arbitrary: w)
  case Nil
  then show ?case by simp
next
  case (Cons t ts)
  let ?v = "runTimers t w"
  have n: "nextHandle (host ?v) = nextHandle (host w)" by (simp add: runTimers_def)
  from onGitChanged_pending [OF runTimers_single [OF Cons.prems(2)], of t t] n Cons.prems(1)
  have "0 < nextHandle (host (onGitChanged t ?v))"
    and "pending (host (onGitChanged t ?v)) = [] \<or>
     (\<exists>i due. 0 < i \<and> pending (host (onGitChanged t ?v)) = [(i, due)]
        \<and> debounceTimer (onGitChanged t ?v) = Some i)"
    by simp_all
  from Cons.IH [OF this] show ?case by simp
qed

lemma reached_single:
  "pending (host (notifications initialWorld ts)) = [] \<or>
     (\<exists>i due. 0 < i \<and> pending (host (notifications initialWorld ts)) = [(i, due)]
         \<and> debounceTimer (notifications initialWorld ts) = Some i)"
  by (rule notifications_single) (simp_all add: initialWorld_def)

text \<open>
  C5.  In a world whose only pending timer, if any, is the one \<open>debounceTimer\<close> names, the
  listener leaves exactly one pending timer, the new one, due 300 milliseconds after the
  notification: the old one is cancelled.  Every world reached from the initial one by
  notifications is such a world.  For notifications at the times \<open>ts\<close>, in order,
  \<open>fetchRepoInfo\<close> is called once for every burst, 300 milliseconds after the last
  notification of the burst; so when each notification comes less than 300 milliseconds
  after the one before, it is called exactly once, 300 milliseconds after the last one.
  Time is in whole milliseconds and a timer runs at the time it is due.
\<close>

theorem debounce_one_fetch_per_burst:
  "(pending (host w) = [] \<or>
      (\<exists>i due. 0 < i \<and> pending (host w) = [(i, due)] \<and> debounceTimer w = Some i)
    \<longrightarrow> pending (host (onGitChanged now w)) = [(nextHandle (host w), now + 300)]
        \<and> debounceTimer (onGitChanged now w) = Some (nextHandle (host w)))
   \<and> (sorted ts \<longrightarrow> fetchTimes ts = map (\<lambda>t. t + 300) (burstEnds ts))
   \<and> (sorted ts \<and> ts \<noteq> [] \<and> closeGaps ts \<longrightarrow> fetchTimes ts = [last ts + 300])
   \<and> (pending (host (notifications initialWorld us)) = [] \<or>
        (\<exists>i due. 0 < i \<and> pending (host (notifications initialWorld us)) = [(i, due)]
            \<and> debounceTimer (notifications initialWorld us) = Some i))"
proof (intro conjI impI)
  assume "pending (host w) = [] \<or>
      (\<exists>i due. 0 < i \<and> pending (host w) = [(i, due)] \<and> debounceTimer w = Some i)"
  from onGitChanged_pending [OF this, of now]
  show "pending (host (onGitChanged now w)) = [(nextHandle (host w), now + 300)]"
    and "debounceTimer (onGitChanged now w) = Some (nextHandle (host w))" by simp_all
next
  assume "sorted ts"
  then show "fetchTimes ts = map (\<lambda>t. t + 300) (burstEnds ts)"
    by (rule fetchTimes_bursts)
next
  assume a: "sorted ts \<and> ts \<noteq> [] \<and> closeGaps ts"
  then have "burstEnds ts = [last ts]" by (simp add: burstEnds_closeGaps)
  with a show "fetchTimes ts = [last ts + 300]" by (simp add: fetchTimes_bursts)
next
  show "pending (host (notifications initialWorld us)) = [] \<or>
        (\<exists>i due. 0 < i \<and> pending (host (notifications initialWorld us)) = [(i, due)]
            \<and> debounceTimer (notifications initialWorld us) = Some i)"
    by (rule reached_single)
qed

theorem debounce_one_fetch_per_burst_witness:
  "sorted [1000, 1100, 1399 :: nat] \<and> closeGaps [1000, 1100, 1399]
   \<and> fetchTimes [1000, 1100, 1399] = [1699]
   \<and> sorted [0, 100, 400, 600 :: nat] \<and> fetchTimes [0, 100, 400, 600] = [400, 900]
   \<and> pending (host (onGitChanged 50 \<lparr>debounceTimer = Some 4,
          host = \<lparr>nextHandle = 5, pending = [(4, 320)]\<rparr>, fetched = []\<rparr>)) = [(5, 350)]"
proof -
  have s1: "sorted [1000, 1100, 1399 :: nat]" and c1: "closeGaps [1000, 1100, 1399]"
    by simp_all
  have f1: "fetchTimes [1000, 1100, 1399] = [1699]"
    using debounce_one_fetch_per_burst [where ts = "[1000, 1100, 1399]", THEN conjunct2,
        THEN conjunct2, THEN conjunct1]
      s1 c1 by simp
  have s2: "sorted [0, 100, 400, 600 :: nat]" by simp
  have f2: "fetchTimes [0, 100, 400, 600] = [400, 900]"
    using debounce_one_fetch_per_burst [where ts = "[0, 100, 400, 600]", THEN conjunct2, THEN conjunct1]
      s2 by simp
  have p: "pending (host (onGitChanged 50 \<lparr>debounceTimer = Some 4,
          host = \<lparr>nextHandle = 5, pending = [(4, 320)]\<rparr>, fetched = []\<rparr>)) = [(5, 350)]"
    using debounce_one_fetch_per_burst [where now = 50 and w = "\<lparr>debounceTimer = Some 4,
          host = \<lparr>nextHandle = 5, pending = [(4, 320)]\<rparr>, fetched = []\<rparr>", THEN conjunct1]
    by simp
  show ?thesis using s1 c1 f1 s2 f2 p by simp
qed

end
